theory Spec2Isabelle
  imports Main "HOL-Library.Word"
begin

section \<open>Data model of wasm/WasmDebug.cpp\<close>

text \<open>
  Offsets, line numbers, columns, function indices and the reference counters are
  \<open>uint32_t\<close> in the source and 32-bit words here: \<open>+\<close> and \<open>-\<close> wrap, \<open><\<close> and
  \<open>\<le>\<close> compare unsigned. Values of type \<open>size_t\<close> (vector lengths, vector indices, the
  \<open>lineno\<close> argument of \<open>getLineOffsets\<close>) are natural numbers.

  \<open>MOZ_ASSERT\<close> is modelled as it behaves in a debug build: a violated assertion ends
  the call with \<open>Inl AssertionFailure\<close>. An index past the end of a \<open>Vector\<close> is such
  a violation (the vector's \<open>operator[]\<close> asserts its index). A function of the source
  that returns \<open>false\<close> or \<open>nullptr\<close> after an allocation failure returns normally
  here, with that value and the state as the source leaves it.
\<close>

type_synonym u32 = "32 word"
type_synonym u8 = "8 word"

datatype error = AssertionFailure

record ExprLoc =
  lineno :: u32
  column :: u32
  offset :: u32

record GeneratedSourceMap =
  exprlocs :: "ExprLoc list"
  sortedByOffsetExprLocIndices :: "nat list option"
  totalLines :: u32

text \<open>
  Modelled from the spec: the declaration of \<open>CallSiteDesc::Kind\<close> is in a header that
  is not under src/. The spec classifies a call site as an ordinary call,
  breakpoint-capable, frame entry or frame exit; wasm/WasmDebug.cpp names the last three
  \<open>Breakpoint\<close>, \<open>EnterFrame\<close> and \<open>LeaveFrame\<close>.
\<close>

datatype Kind = OrdinaryCall | Breakpoint | EnterFrame | LeaveFrame

record CallSite =
  kind :: Kind
  lineOrBytecode :: u32
  returnAddressOffset :: u32

text \<open>The fields \<open>begin\<close> and \<open>end\<close> of a code range are \<open>rangeBegin\<close> and \<open>rangeEnd\<close>.\<close>

record CodeRange =
  isFunction :: bool
  rangeBegin :: u32
  rangeEnd :: u32
  funcIndex :: u32
  funcLineOrBytecode :: u32

record Metadata =
  debugEnabled :: bool
  codeRanges :: "CodeRange list"
  debugFuncToCodeRange :: "u32 list"
  callSites :: "CallSite list"
  debugTrapFarJumpOffsets :: "u32 list"

record WasmBreakpointSite =
  siteOffset :: u32

text \<open>
  The code segment is shared, mutable machine code. What the debugger patches in it is
  the instruction that ends at a call site's return address: a no-op, or a call of the
  far jump at some offset of the segment. The segment is a store from the offset of a
  return address to that instruction.
\<close>

datatype Instr = Nop | Call u32

text \<open>
  The two hash tables have an \<open>initialized()\<close> flag: \<open>None\<close> is a table before
  \<open>init()\<close>.
\<close>

record DebugState =
  code :: "u32 \<Rightarrow> Instr"
  metadata :: Metadata
  maybeBytecode :: "u8 list option"
  maybeSourceMap :: "GeneratedSourceMap option"
  enterAndLeaveFrameTrapsCounter :: u32
  breakpointSites :: "(u32 \<rightharpoonup> WasmBreakpointSite) option"
  stepModeCounters :: "(u32 \<rightharpoonup> u32) option"

text \<open>
  What a call cannot decide by itself: whether each kind of allocation succeeds, and
  what the text renderer \<open>BinaryToText\<close> (a collaborator, not under src/) produces for
  the bytecode: whether it succeeded, the text, and the expression locations and line
  count it left in the source map, also when it failed.
\<close>

record Env =
  tableInitOk :: bool
  tableAddOk :: bool
  vectorResizeOk :: bool
  newSourceMapOk :: bool
  newSiteOk :: bool
  bufferAppendOk :: bool
  finishStringOk :: bool
  offsetsAppendLimit :: "nat option"
  BinaryToText :: "u8 list \<Rightarrow> bool \<times> string \<times> ExprLoc list \<times> u32"

section \<open>The code patcher\<close>

text \<open>
  Modelled from the spec: \<open>MacroAssembler::patchNopToCall\<close> and
  \<open>MacroAssembler::patchCallToNop\<close> are not under src/. The spec: enabling patches a
  "no-op to call trampoline" transformation at the trap site referencing that
  trampoline; disabling reverses this to a no-op.
\<close>

definition patchNopToCall :: "u32 \<Rightarrow> u32 \<Rightarrow> DebugState \<Rightarrow> DebugState" where
  "patchNopToCall trap farJump s = s\<lparr>code := (code s)(trap := Call farJump)\<rparr>"

definition patchCallToNop :: "u32 \<Rightarrow> DebugState \<Rightarrow> DebugState" where
  "patchCallToNop trap s = s\<lparr>code := (code s)(trap := Nop)\<rparr>"

text \<open>
  The scan of \<open>toggleDebugTrap\<close>:
  \<^verbatim>\<open>while (i < farJumpOffsets.length() && offset < farJumpOffsets[i]) i++;\<close>
\<close>

function farJumpScan :: "u32 list \<Rightarrow> u32 \<Rightarrow> nat \<Rightarrow> nat" where
  "farJumpScan farJumpOffsets off i =
     (if i < length farJumpOffsets \<and> off < farJumpOffsets ! i
      then farJumpScan farJumpOffsets off (Suc i) else i)"
  by pat_completeness auto
termination
  by (relation "measure (\<lambda>(farJumpOffsets, off, i). length farJumpOffsets - i)") auto

declare farJumpScan.simps [simp del]

text \<open>The index \<open>toggleDebugTrap\<close> ends with, for a table that is not empty.\<close>

definition farJumpIndex :: "u32 list \<Rightarrow> u32 \<Rightarrow> nat" where
  "farJumpIndex farJumpOffsets off =
     (let i = farJumpScan farJumpOffsets off 0 in
      if i \<ge> length farJumpOffsets \<or>
         (i > 0 \<and> off - farJumpOffsets ! (i - 1) < farJumpOffsets ! i - off)
      then i - 1 else i)"

definition toggleDebugTrap :: "u32 \<Rightarrow> bool \<Rightarrow> DebugState \<Rightarrow> error + DebugState" where
  "toggleDebugTrap off enabled s =
     (if off = 0 then Inl AssertionFailure
      else
        let farJumpOffsets = debugTrapFarJumpOffsets (metadata s) in
        if enabled then
          (if \<not> length farJumpOffsets > 0 then Inl AssertionFailure
           else Inr (patchNopToCall off
                  (farJumpOffsets ! farJumpIndex farJumpOffsets off) s))
        else Inr (patchCallToNop off s))"

definition trapEnabled :: "DebugState \<Rightarrow> u32 \<Rightarrow> bool" where
  "trapEnabled s off = (code s off \<noteq> Nop)"

section \<open>Breakpoint call sites\<close>

fun SlowCallSiteSearchByOffset :: "CallSite list \<Rightarrow> u32 \<Rightarrow> CallSite option" where
  "SlowCallSiteSearchByOffset [] off = None"
| "SlowCallSiteSearchByOffset (callSite # rest) off =
     (if lineOrBytecode callSite = off \<and> kind callSite = Breakpoint then Some callSite
      else SlowCallSiteSearchByOffset rest off)"

definition hasBreakpointTrapAtOffset :: "DebugState \<Rightarrow> u32 \<Rightarrow> bool" where
  "hasBreakpointTrapAtOffset s off =
     (if \<not> debugEnabled (metadata s) then False
      else SlowCallSiteSearchByOffset (callSites (metadata s)) off \<noteq> None)"

section \<open>Code ranges\<close>

text \<open>
  \<^verbatim>\<open>metadata_->codeRanges[metadata_->debugFuncToCodeRange[funcIndex]]\<close>, followed by
  \<^verbatim>\<open>MOZ_ASSERT(codeRange.isFunction())\<close>.
\<close>

definition funcCodeRange :: "Metadata \<Rightarrow> u32 \<Rightarrow> error + CodeRange" where
  "funcCodeRange md f =
     (if unat f \<ge> length (debugFuncToCodeRange md) then Inl AssertionFailure
      else
        let r = unat (debugFuncToCodeRange md ! unat f) in
        if r \<ge> length (codeRanges md) then Inl AssertionFailure
        else if \<not> isFunction (codeRanges md ! r) then Inl AssertionFailure
        else Inr (codeRanges md ! r))"

text \<open>
  Modelled from the spec: \<open>Code::lookupRange\<close> is not under src/. The spec speaks of the
  function that contains a call site; the model answers with the first code range whose
  offsets, from \<open>begin\<close> up to but excluding \<open>end\<close>, hold the target.
\<close>

definition lookupRange :: "DebugState \<Rightarrow> u32 \<Rightarrow> CodeRange option" where
  "lookupRange s target =
     find (\<lambda>cr. rangeBegin cr \<le> target \<and> target < rangeEnd cr) (codeRanges (metadata s))"

section \<open>The breakpoint site registry\<close>

definition hasBreakpointSite :: "DebugState \<Rightarrow> u32 \<Rightarrow> bool" where
  "hasBreakpointSite s off =
     (case breakpointSites s of None \<Rightarrow> False | Some sites \<Rightarrow> sites off \<noteq> None)"

text \<open>The result is the site, or \<open>None\<close> for \<open>nullptr\<close> after an allocation failure.\<close>

definition getOrCreateBreakpointSite ::
    "Env \<Rightarrow> u32 \<Rightarrow> DebugState \<Rightarrow> WasmBreakpointSite option \<times> DebugState" where
  "getOrCreateBreakpointSite env off s =
     (if breakpointSites s = None \<and> \<not> tableInitOk env then (None, s)
      else
        let sites = (case breakpointSites s of None \<Rightarrow> Map.empty | Some m \<Rightarrow> m);
            s1 = s\<lparr>breakpointSites := Some sites\<rparr>
        in case sites off of
             None \<Rightarrow>
               if \<not> newSiteOk env \<or> \<not> tableAddOk env then (None, s1)
               else (Some \<lparr>siteOffset = off\<rparr>,
                     s1\<lparr>breakpointSites := Some (sites(off \<mapsto> \<lparr>siteOffset = off\<rparr>))\<rparr>)
           | Some site \<Rightarrow> (Some site, s1))"

definition destroyBreakpointSite :: "u32 \<Rightarrow> DebugState \<Rightarrow> error + DebugState" where
  "destroyBreakpointSite off s =
     (case breakpointSites s of
        None \<Rightarrow> Inl AssertionFailure
      | Some sites \<Rightarrow>
          (case sites off of
             None \<Rightarrow> Inl AssertionFailure
           | Some site \<Rightarrow> Inr (s\<lparr>breakpointSites := Some (sites(off := None))\<rparr>)))"

section \<open>Step mode\<close>

definition stepModeEnabled :: "DebugState \<Rightarrow> u32 \<Rightarrow> bool" where
  "stepModeEnabled s f =
     (case stepModeCounters s of None \<Rightarrow> False | Some counters \<Rightarrow> counters f \<noteq> None)"

text \<open>The loop of \<open>incrementStepModeCount\<close> over the call sites.\<close>

fun incrementStepModeCount_sites ::
    "CodeRange \<Rightarrow> CallSite list \<Rightarrow> DebugState \<Rightarrow> error + DebugState" where
  "incrementStepModeCount_sites codeRange [] s = Inr s"
| "incrementStepModeCount_sites codeRange (callSite # rest) s =
     (if kind callSite \<noteq> Breakpoint then incrementStepModeCount_sites codeRange rest s
      else
        let off = returnAddressOffset callSite in
        if rangeBegin codeRange \<le> off \<and> off \<le> rangeEnd codeRange then
          (case toggleDebugTrap off True s of
             Inl e \<Rightarrow> Inl e
           | Inr s' \<Rightarrow> incrementStepModeCount_sites codeRange rest s')
        else incrementStepModeCount_sites codeRange rest s)"

definition incrementStepModeCount ::
    "Env \<Rightarrow> u32 \<Rightarrow> DebugState \<Rightarrow> error + (bool \<times> DebugState)" where
  "incrementStepModeCount env f s =
     (if \<not> debugEnabled (metadata s) then Inl AssertionFailure
      else case funcCodeRange (metadata s) f of
        Inl e \<Rightarrow> Inl e
      | Inr codeRange \<Rightarrow>
          if stepModeCounters s = None \<and> \<not> tableInitOk env then Inr (False, s)
          else
            let counters = (case stepModeCounters s of None \<Rightarrow> Map.empty | Some m \<Rightarrow> m);
                s1 = s\<lparr>stepModeCounters := Some counters\<rparr>
            in case counters f of
                 Some v \<Rightarrow>
                   if \<not> v > 0 then Inl AssertionFailure
                   else Inr (True, s1\<lparr>stepModeCounters := Some (counters(f \<mapsto> v + 1))\<rparr>)
               | None \<Rightarrow>
                   if \<not> tableAddOk env then Inr (False, s1)
                   else
                     (case incrementStepModeCount_sites codeRange (callSites (metadata s))
                             (s1\<lparr>stepModeCounters := Some (counters(f \<mapsto> 1))\<rparr>) of
                        Inl e \<Rightarrow> Inl e
                      | Inr s2 \<Rightarrow> Inr (True, s2)))"

text \<open>The loop of \<open>decrementStepModeCount\<close> over the call sites.\<close>

fun decrementStepModeCount_sites ::
    "CodeRange \<Rightarrow> CallSite list \<Rightarrow> DebugState \<Rightarrow> error + DebugState" where
  "decrementStepModeCount_sites codeRange [] s = Inr s"
| "decrementStepModeCount_sites codeRange (callSite # rest) s =
     (if kind callSite \<noteq> Breakpoint then decrementStepModeCount_sites codeRange rest s
      else
        let off = returnAddressOffset callSite in
        if rangeBegin codeRange \<le> off \<and> off \<le> rangeEnd codeRange then
          (let enabled = hasBreakpointSite s off in
           case toggleDebugTrap off enabled s of
             Inl e \<Rightarrow> Inl e
           | Inr s' \<Rightarrow> decrementStepModeCount_sites codeRange rest s')
        else decrementStepModeCount_sites codeRange rest s)"

definition decrementStepModeCount :: "u32 \<Rightarrow> DebugState \<Rightarrow> error + (bool \<times> DebugState)" where
  "decrementStepModeCount f s =
     (if \<not> debugEnabled (metadata s) then Inl AssertionFailure
      else case funcCodeRange (metadata s) f of
        Inl e \<Rightarrow> Inl e
      | Inr codeRange \<Rightarrow>
          (case stepModeCounters s of
             None \<Rightarrow> Inl AssertionFailure
           | Some counters \<Rightarrow>
               if counters = Map.empty then Inl AssertionFailure
               else
                 (case counters f of
                    None \<Rightarrow> Inl AssertionFailure
                  | Some v \<Rightarrow>
                      if v - 1 \<noteq> 0 then
                        Inr (True, s\<lparr>stepModeCounters := Some (counters(f \<mapsto> v - 1))\<rparr>)
                      else
                        (case decrementStepModeCount_sites codeRange (callSites (metadata s))
                                (s\<lparr>stepModeCounters := Some (counters(f := None))\<rparr>) of
                           Inl e \<Rightarrow> Inl e
                         | Inr s2 \<Rightarrow> Inr (True, s2)))))"

section \<open>Toggling one breakpoint\<close>

definition toggleBreakpointTrap :: "u32 \<Rightarrow> bool \<Rightarrow> DebugState \<Rightarrow> error + DebugState" where
  "toggleBreakpointTrap off enabled s =
     (if \<not> debugEnabled (metadata s) then Inl AssertionFailure
      else case SlowCallSiteSearchByOffset (callSites (metadata s)) off of
        None \<Rightarrow> Inr s
      | Some callSite \<Rightarrow>
          let debugTrapOffset = returnAddressOffset callSite in
          (case lookupRange s debugTrapOffset of
             None \<Rightarrow> Inl AssertionFailure
           | Some codeRange \<Rightarrow>
               if \<not> isFunction codeRange then Inl AssertionFailure
               else if stepModeEnabled s (funcIndex codeRange) then Inr s
               else toggleDebugTrap debugTrapOffset enabled s))"

section \<open>Enter and leave frame traps\<close>

fun adjustEnterAndLeaveFrameTrapsState_sites ::
    "bool \<Rightarrow> CallSite list \<Rightarrow> DebugState \<Rightarrow> error + DebugState" where
  "adjustEnterAndLeaveFrameTrapsState_sites stillEnabled [] s = Inr s"
| "adjustEnterAndLeaveFrameTrapsState_sites stillEnabled (callSite # rest) s =
     (if kind callSite \<noteq> EnterFrame \<and> kind callSite \<noteq> LeaveFrame
      then adjustEnterAndLeaveFrameTrapsState_sites stillEnabled rest s
      else
        (case toggleDebugTrap (returnAddressOffset callSite) stillEnabled s of
           Inl e \<Rightarrow> Inl e
         | Inr s' \<Rightarrow> adjustEnterAndLeaveFrameTrapsState_sites stillEnabled rest s'))"

definition adjustEnterAndLeaveFrameTrapsState :: "bool \<Rightarrow> DebugState \<Rightarrow> error + DebugState" where
  "adjustEnterAndLeaveFrameTrapsState enabled s =
     (if \<not> debugEnabled (metadata s) then Inl AssertionFailure
      else if \<not> enabled \<and> \<not> enterAndLeaveFrameTrapsCounter s > 0 then Inl AssertionFailure
      else
        let wasEnabled = enterAndLeaveFrameTrapsCounter s > 0;
            s1 = (if enabled
                  then s\<lparr>enterAndLeaveFrameTrapsCounter := enterAndLeaveFrameTrapsCounter s + 1\<rparr>
                  else s\<lparr>enterAndLeaveFrameTrapsCounter := enterAndLeaveFrameTrapsCounter s - 1\<rparr>);
            stillEnabled = enterAndLeaveFrameTrapsCounter s1 > 0
        in if wasEnabled = stillEnabled then Inr s1
           else adjustEnterAndLeaveFrameTrapsState_sites stillEnabled (callSites (metadata s)) s1)"

section \<open>The generated source map\<close>

text \<open>
  Modelled from the spec: \<open>mozilla::BinarySearchIf\<close> (mozilla/BinarySearch.h) is not
  under src/. The spec has \<open>findByOffset\<close> and \<open>offsetsForLine\<close> binary-search a sorted
  sequence, for an entry that need not exist. The model halves the range from \<open>low\<close> up
  to but excluding \<open>high\<close>; the comparator answers 0 at a match, a negative number when
  the target is below the element and a positive one when it is above. The result is
  whether a match was found, and the matching index or else the insertion point.
\<close>

function BinarySearchIf :: "'a list \<Rightarrow> nat \<Rightarrow> nat \<Rightarrow> ('a \<Rightarrow> int) \<Rightarrow> bool \<times> nat" where
  "BinarySearchIf container low high compare =
     (if low < high then
        let middle = low + (high - low) div 2;
            result = compare (container ! middle)
        in if result = 0 then (True, middle)
           else if result < 0 then BinarySearchIf container low middle compare
           else BinarySearchIf container (middle + 1) high compare
      else (False, low))"
  by pat_completeness auto
termination
  by (relation "measure (\<lambda>(container, low, high, compare). high - low)") auto

declare BinarySearchIf.simps [simp del]

text \<open>
  Modelled from the spec: \<open>js::MergeSort\<close> (ds/Sort.h) is not under src/. The spec: the
  permutation is stable-sorted so that dereferencing yields ascending instruction
  offsets. The comparator of the source, \<open>exprlocs_[i].offset <= exprlocs_[j].offset\<close>,
  orders the elements by a key.
\<close>

definition MergeSort :: "('a \<Rightarrow> 'k::linorder) \<Rightarrow> 'a list \<Rightarrow> 'a list" where
  "MergeSort key xs = sort_key key xs"

text \<open>
  The index that \<open>searchLineByOffset\<close> builds on first use: the identity permutation,
  sorted by the offset of the expression location an index stands for. The source keeps
  the indices in \<open>uint32_t\<close>; they are natural numbers here, the same for fewer than
  \<open>2^32\<close> expression locations.
\<close>

definition sortedByOffsetIndices :: "ExprLoc list \<Rightarrow> nat list" where
  "sortedByOffsetIndices locs = MergeSort (\<lambda>i. offset (locs ! i)) [0..<length locs]"

definition lookupFn :: "ExprLoc list \<Rightarrow> u32 \<Rightarrow> nat \<Rightarrow> int" where
  "lookupFn locs off i =
     (let loc = locs ! i in if off = offset loc then 0 else if off < offset loc then - 1 else 1)"

text \<open>
  The result is \<open>None\<close> when the source returns \<open>false\<close> (out of memory), and the index
  written to \<open>exprlocIndex\<close> otherwise.
\<close>

definition searchLineByOffset ::
    "Env \<Rightarrow> u32 \<Rightarrow> GeneratedSourceMap \<Rightarrow> error + (nat option \<times> GeneratedSourceMap)" where
  "searchLineByOffset env off sm =
     (if exprlocs sm = [] then Inl AssertionFailure
      else
        let exprlocsLength = length (exprlocs sm) in
        if sortedByOffsetExprLocIndices sm = None \<and> \<not> vectorResizeOk env then Inr (None, sm)
        else
          let indices = (case sortedByOffsetExprLocIndices sm of
                           None \<Rightarrow> sortedByOffsetIndices (exprlocs sm)
                         | Some ix \<Rightarrow> ix);
              sm1 = sm\<lparr>sortedByOffsetExprLocIndices := Some indices\<rparr>;
              match = snd (BinarySearchIf indices 0 exprlocsLength (lookupFn (exprlocs sm) off));
              match1 = (if match \<ge> exprlocsLength then exprlocsLength - 1 else match)
          in if match1 \<ge> length indices then Inl AssertionFailure
             else Inr (Some (indices ! match1), sm1))"

section \<open>The debug state and its source text\<close>

text \<open>The constructor, with its \<^verbatim>\<open>MOZ_ASSERT_IF(metadata_->debugEnabled, maybeBytecode)\<close>.\<close>

definition newDebugState ::
    "(u32 \<Rightarrow> Instr) \<Rightarrow> Metadata \<Rightarrow> u8 list option \<Rightarrow> error + DebugState" where
  "newDebugState segment md bytecode =
     (if debugEnabled md \<and> bytecode = None then Inl AssertionFailure
      else Inr \<lparr>code = segment, metadata = md, maybeBytecode = bytecode,
                maybeSourceMap = None, enterAndLeaveFrameTrapsCounter = 0,
                breakpointSites = None, stepModeCounters = None\<rparr>)"

definition enabledMessage :: string where
  "enabledMessage = ''Restart with developer tools open to view WebAssembly source''"

definition tooBigMessage :: string where
  "tooBigMessage =
     ''Unfortunately, this WebAssembly module is too big to view as text.'' @ [CHR 0x0A] @
     ''We are working hard to remove this limitation.''"

definition TooBig :: nat where
  "TooBig = 1000000"

text \<open>The check of the \<open>DEBUG\<close> build that the expression locations are sorted by line.\<close>

fun linesSorted :: "u32 \<Rightarrow> ExprLoc list \<Rightarrow> bool" where
  "linesSorted lastLineno [] = True"
| "linesSorted lastLineno (loc # rest) =
     (if \<not> lastLineno \<le> lineno loc then False else linesSorted (lineno loc) rest)"

definition finishString :: "Env \<Rightarrow> string \<Rightarrow> string option" where
  "finishString env buffer = (if finishStringOk env then Some buffer else None)"

text \<open>The result is the string, or \<open>None\<close> for \<open>nullptr\<close>.\<close>

definition createText :: "Env \<Rightarrow> DebugState \<Rightarrow> error + (string option \<times> DebugState)" where
  "createText env s =
     (case maybeBytecode s of
        None \<Rightarrow>
          if \<not> bufferAppendOk env then Inr (None, s)
          else if maybeSourceMap s \<noteq> None then Inl AssertionFailure
          else Inr (finishString env enabledMessage, s)
      | Some bytes \<Rightarrow>
          if length bytes > TooBig then
            (if \<not> bufferAppendOk env then Inr (None, s)
             else if maybeSourceMap s \<noteq> None then Inl AssertionFailure
             else Inr (finishString env tooBigMessage, s))
          else if \<not> newSourceMapOk env then Inr (None, s)
          else
            (case BinaryToText env bytes of
               (ok, text, locs, lines) \<Rightarrow>
                 let s1 = s\<lparr>maybeSourceMap :=
                            Some \<lparr>exprlocs = locs, sortedByOffsetExprLocIndices = None,
                                  totalLines = lines\<rparr>\<rparr>
                 in if \<not> ok then Inr (None, s1)
                    else if \<not> linesSorted 0 locs then Inl AssertionFailure
                    else Inr (finishString env text, s1)))"

definition ensureSourceMap :: "Env \<Rightarrow> DebugState \<Rightarrow> error + (bool \<times> DebugState)" where
  "ensureSourceMap env s =
     (if maybeSourceMap s \<noteq> None \<or> maybeBytecode s = None then Inr (True, s)
      else case createText env s of
             Inl e \<Rightarrow> Inl e
           | Inr (text, s') \<Rightarrow> Inr (text \<noteq> None, s'))"

text \<open>
  \<open>LineComparator\<close> keeps its line in a \<open>uint32_t\<close>: the \<open>size_t\<close> argument of
  \<open>getLineOffsets\<close> is truncated when the comparator is made, and compared in full in
  the two loops that follow the search.
\<close>

definition LineComparator :: "u32 \<Rightarrow> ExprLoc \<Rightarrow> int" where
  "LineComparator line loc =
     (if line = lineno loc then 0 else if line < lineno loc then - 1 else 1)"

text \<open>\<^verbatim>\<open>while (match > 0 && exprlocs[match - 1].lineno == lineno) match--;\<close>\<close>

fun rewindToFirst :: "ExprLoc list \<Rightarrow> nat \<Rightarrow> nat \<Rightarrow> nat" where
  "rewindToFirst locs line 0 = 0"
| "rewindToFirst locs line (Suc m) =
     (if unat (lineno (locs ! m)) = line then rewindToFirst locs line m else Suc m)"

text \<open>
  The loop that appends the offsets. \<open>limit\<close> is the number of \<open>append\<close> calls that
  still succeed, \<open>None\<close> when none fails.
\<close>

function appendLineOffsets ::
    "ExprLoc list \<Rightarrow> nat \<Rightarrow> nat \<Rightarrow> nat option \<Rightarrow> u32 list \<Rightarrow> bool \<times> u32 list" where
  "appendLineOffsets locs line i limit offsets =
     (if i < length locs \<and> unat (lineno (locs ! i)) = line then
        (case limit of
           Some 0 \<Rightarrow> (False, offsets)
         | Some (Suc k) \<Rightarrow>
             appendLineOffsets locs line (Suc i) (Some k) (offsets @ [offset (locs ! i)])
         | None \<Rightarrow> appendLineOffsets locs line (Suc i) None (offsets @ [offset (locs ! i)]))
      else (True, offsets))"
  by pat_completeness auto
termination
  by (relation "measure (\<lambda>(locs, line, i, limit, offsets). length locs - i)") auto

declare appendLineOffsets.simps [simp del]

definition getLineOffsets ::
    "Env \<Rightarrow> nat \<Rightarrow> u32 list \<Rightarrow> DebugState \<Rightarrow> error + (bool \<times> u32 list \<times> DebugState)" where
  "getLineOffsets env line offsets s =
     (if \<not> debugEnabled (metadata s) then Inr (True, offsets, s)
      else case ensureSourceMap env s of
        Inl e \<Rightarrow> Inl e
      | Inr (ok, s1) \<Rightarrow>
          if \<not> ok then Inr (False, offsets, s1)
          else
            (case maybeSourceMap s1 of
               None \<Rightarrow> Inr (True, offsets, s1)
             | Some sm \<Rightarrow>
                 (case BinarySearchIf (exprlocs sm) 0 (length (exprlocs sm))
                         (LineComparator (of_nat line)) of
                    (found, match) \<Rightarrow>
                      if \<not> found then Inr (True, offsets, s1)
                      else
                        (case appendLineOffsets (exprlocs sm) line
                                (rewindToFirst (exprlocs sm) line match)
                                (offsetsAppendLimit env) offsets of
                           (ok1, offsets1) \<Rightarrow> Inr (ok1, offsets1, s1)))))"

text \<open>
  The result is what the source returns, \<open>found\<close>, and the line and column when it
  wrote them.
\<close>

definition getOffsetLocation ::
    "Env \<Rightarrow> u32 \<Rightarrow> DebugState \<Rightarrow> error + (bool \<times> bool \<times> (nat \<times> nat) option \<times> DebugState)" where
  "getOffsetLocation env off s =
     (if \<not> debugEnabled (metadata s) then Inr (True, False, None, s)
      else case ensureSourceMap env s of
        Inl e \<Rightarrow> Inl e
      | Inr (ok, s1) \<Rightarrow>
          if \<not> ok then Inr (False, False, None, s1)
          else
            (case maybeSourceMap s1 of
               None \<Rightarrow> Inr (True, False, None, s1)
             | Some sm \<Rightarrow>
                 if exprlocs sm = [] then Inr (True, False, None, s1)
                 else
                   (case searchLineByOffset env off sm of
                      Inl e \<Rightarrow> Inl e
                    | Inr (r, sm1) \<Rightarrow>
                        let s2 = s1\<lparr>maybeSourceMap := Some sm1\<rparr> in
                        (case r of
                           None \<Rightarrow> Inr (False, False, None, s2)
                         | Some foundAt \<Rightarrow>
                             if foundAt \<ge> length (exprlocs sm1) then Inl AssertionFailure
                             else
                               let loc = exprlocs sm1 ! foundAt in
                               Inr (True, True,
                                    Some (unat (lineno loc), unat (column loc)), s2)))))"

definition totalSourceLines :: "Env \<Rightarrow> DebugState \<Rightarrow> error + (bool \<times> u32 \<times> DebugState)" where
  "totalSourceLines env s =
     (if \<not> debugEnabled (metadata s) then Inr (True, 0, s)
      else case ensureSourceMap env s of
        Inl e \<Rightarrow> Inl e
      | Inr (ok, s1) \<Rightarrow>
          if \<not> ok then Inr (False, 0, s1)
          else
            (case maybeSourceMap s1 of
               None \<Rightarrow> Inr (True, 0, s1)
             | Some sm \<Rightarrow> Inr (True, totalLines sm, s1)))"

section \<open>Reachable states\<close>

text \<open>
  The states of a \<open>DebugState\<close>: what the constructor makes, and what a call of a
  member function that returns leaves behind, in any environment. \<open>clearBreakpointsIn\<close>
  changes the state only through the breakpoints it destroys, which act on it by
  \<open>toggleBreakpointTrap\<close> and \<open>destroyBreakpointSite\<close>; the member functions that are
  \<open>const\<close> or only read the metadata change nothing.
\<close>

inductive reachable :: "DebugState \<Rightarrow> bool" where
  constructed: "newDebugState segment md bytecode = Inr s \<Longrightarrow> reachable s"
| after_createText: "reachable s \<Longrightarrow> createText env s = Inr (text, s') \<Longrightarrow> reachable s'"
| after_ensureSourceMap:
    "reachable s \<Longrightarrow> ensureSourceMap env s = Inr (ok, s') \<Longrightarrow> reachable s'"
| after_getLineOffsets:
    "reachable s \<Longrightarrow> getLineOffsets env line offsets s = Inr (ok, offsets', s') \<Longrightarrow>
       reachable s'"
| after_getOffsetLocation:
    "reachable s \<Longrightarrow> getOffsetLocation env off s = Inr (ok, found, position, s') \<Longrightarrow>
       reachable s'"
| after_totalSourceLines:
    "reachable s \<Longrightarrow> totalSourceLines env s = Inr (ok, count, s') \<Longrightarrow> reachable s'"
| after_incrementStepModeCount:
    "reachable s \<Longrightarrow> incrementStepModeCount env f s = Inr (ok, s') \<Longrightarrow> reachable s'"
| after_decrementStepModeCount:
    "reachable s \<Longrightarrow> decrementStepModeCount f s = Inr (ok, s') \<Longrightarrow> reachable s'"
| after_toggleBreakpointTrap:
    "reachable s \<Longrightarrow> toggleBreakpointTrap off enabled s = Inr s' \<Longrightarrow> reachable s'"
| after_getOrCreateBreakpointSite:
    "reachable s \<Longrightarrow> getOrCreateBreakpointSite env off s = (site, s') \<Longrightarrow> reachable s'"
| after_destroyBreakpointSite:
    "reachable s \<Longrightarrow> destroyBreakpointSite off s = Inr s' \<Longrightarrow> reachable s'"
| after_adjustEnterAndLeaveFrameTrapsState:
    "reachable s \<Longrightarrow> adjustEnterAndLeaveFrameTrapsState enabled s = Inr s' \<Longrightarrow>
       reachable s'"

section \<open>Notions used in the statements\<close>

text \<open>The far jump that \<open>toggleDebugTrap\<close> makes the call at an offset point to.\<close>

definition farJumpTarget :: "Metadata \<Rightarrow> u32 \<Rightarrow> u32" where
  "farJumpTarget md off =
     debugTrapFarJumpOffsets md ! farJumpIndex (debugTrapFarJumpOffsets md) off"

text \<open>
  The return-address offsets of the \<open>Breakpoint\<close> call sites that the loops of
  \<open>incrementStepModeCount\<close> and \<open>decrementStepModeCount\<close> visit for a code range
  (\<open>begin \<le> offset \<le> end\<close>), and those of the \<open>EnterFrame\<close> and \<open>LeaveFrame\<close> call
  sites.
\<close>

definition breakpointOffsetsIn :: "CodeRange \<Rightarrow> CallSite list \<Rightarrow> u32 set" where
  "breakpointOffsetsIn cr cs =
     set (map returnAddressOffset
       (filter (\<lambda>c. kind c = Breakpoint \<and> rangeBegin cr \<le> returnAddressOffset c \<and>
                     returnAddressOffset c \<le> rangeEnd cr) cs))"

definition frameOffsets :: "CallSite list \<Rightarrow> u32 set" where
  "frameOffsets cs =
     set (map returnAddressOffset (filter (\<lambda>c. kind c = EnterFrame \<or> kind c = LeaveFrame) cs))"

text \<open>
  One \<open>incrementStepModeCount\<close> call for each environment of a list, and a number of
  \<open>decrementStepModeCount\<close> calls, each sequence stopping at the first call that fails.
\<close>

fun incrementStepModeCount_times ::
    "Env list \<Rightarrow> u32 \<Rightarrow> DebugState \<Rightarrow> error + (bool \<times> DebugState)" where
  "incrementStepModeCount_times [] f s = Inr (True, s)"
| "incrementStepModeCount_times (env # envs) f s =
     (case incrementStepModeCount env f s of
        Inl e \<Rightarrow> Inl e
      | Inr (ok, s') \<Rightarrow>
          if ok then incrementStepModeCount_times envs f s' else Inr (False, s'))"

fun decrementStepModeCount_times ::
    "nat \<Rightarrow> u32 \<Rightarrow> DebugState \<Rightarrow> error + (bool \<times> DebugState)" where
  "decrementStepModeCount_times 0 f s = Inr (True, s)"
| "decrementStepModeCount_times (Suc n) f s =
     (case decrementStepModeCount f s of
        Inl e \<Rightarrow> Inl e
      | Inr (ok, s') \<Rightarrow>
          if ok then decrementStepModeCount_times n f s' else Inr (False, s'))"

section \<open>Example states\<close>

text \<open>
  Three expressions, two on line 1: the expression at offset 10 is printed before the
  one at offset 5.
\<close>

definition exampleExprLocs :: "ExprLoc list" where
  "exampleExprLocs =
     [\<lparr>lineno = 1, column = 0, offset = 10\<rparr>,
      \<lparr>lineno = 1, column = 9, offset = 5\<rparr>,
      \<lparr>lineno = 2, column = 0, offset = 30\<rparr>]"

definition exampleSourceMap :: GeneratedSourceMap where
  "exampleSourceMap =
     \<lparr>exprlocs = exampleExprLocs, sortedByOffsetExprLocIndices = None, totalLines = 2\<rparr>"

definition exampleEnv :: Env where
  "exampleEnv =
     \<lparr>tableInitOk = True, tableAddOk = True, vectorResizeOk = True, newSourceMapOk = True,
      newSiteOk = True, bufferAppendOk = True, finishStringOk = True,
      offsetsAppendLimit = None,
      BinaryToText = (\<lambda>bytes. (True, ''(module)'', exampleExprLocs, 2))\<rparr>"

definition exampleMetadata :: Metadata where
  "exampleMetadata =
     \<lparr>debugEnabled = True,
      codeRanges = [\<lparr>isFunction = True, rangeBegin = 8, rangeEnd = 200, funcIndex = 0,
                     funcLineOrBytecode = 3\<rparr>],
      debugFuncToCodeRange = [0],
      callSites = [\<lparr>kind = Breakpoint, lineOrBytecode = 20, returnAddressOffset = 20\<rparr>,
                   \<lparr>kind = Breakpoint, lineOrBytecode = 7, returnAddressOffset = 99\<rparr>,
                   \<lparr>kind = EnterFrame, lineOrBytecode = 3, returnAddressOffset = 12\<rparr>,
                   \<lparr>kind = LeaveFrame, lineOrBytecode = 3, returnAddressOffset = 190\<rparr>],
      debugTrapFarJumpOffsets = [10, 100]\<rparr>"

definition exampleState :: DebugState where
  "exampleState =
     \<lparr>code = (\<lambda>off. Nop), metadata = exampleMetadata, maybeBytecode = Some [0, 97, 115, 109],
      maybeSourceMap = None, enterAndLeaveFrameTrapsCounter = 0, breakpointSites = None,
      stepModeCounters = None\<rparr>"

definition exampleFrameState :: DebugState where
  "exampleFrameState =
     exampleState\<lparr>code := (\<lambda>off. Nop)(12 := Call 10, 190 := Call 10),
                  enterAndLeaveFrameTrapsCounter := 1\<rparr>"

definition exampleSiteState :: DebugState where
  "exampleSiteState = snd (getOrCreateBreakpointSite exampleEnv 20 exampleState)"

definition exampleSteppedState :: DebugState where
  "exampleSteppedState =
     exampleState\<lparr>code := (\<lambda>off. Nop)(20 := Call 10, 99 := Call 10),
                  breakpointSites := Some [20 \<mapsto> \<lparr>siteOffset = 20\<rparr>],
                  stepModeCounters := Some [0 \<mapsto> 1]\<rparr>"

definition exampleUnsteppedState :: DebugState where
  "exampleUnsteppedState =
     exampleState\<lparr>code := (\<lambda>off. Nop)(20 := Call 10, 99 := Nop),
                  breakpointSites := Some [20 \<mapsto> \<lparr>siteOffset = 20\<rparr>],
                  stepModeCounters := Some Map.empty\<rparr>"

definition exampleMappedState :: DebugState where
  "exampleMappedState = exampleState\<lparr>maybeSourceMap := Some exampleSourceMap\<rparr>"

text \<open>
  A live breakpoint at bytecode offset 7: \<open>getOrCreateBreakpointSite\<close> has registered
  its site under 7, and \<open>toggleBreakpointTrap\<close> has enabled the trap of its call site,
  which is at the return address 99. Then the same module with function 0 in step mode,
  and with the step-mode counter removed again.
\<close>

definition exampleRegisteredState :: DebugState where
  "exampleRegisteredState = snd (getOrCreateBreakpointSite exampleEnv 7 exampleState)"

definition exampleLiveState :: DebugState where
  "exampleLiveState =
     exampleState\<lparr>code := (\<lambda>off. Nop)(99 := Call 10),
                  breakpointSites := Some [7 \<mapsto> \<lparr>siteOffset = 7\<rparr>]\<rparr>"

definition exampleLiveSteppedState :: DebugState where
  "exampleLiveSteppedState =
     exampleLiveState\<lparr>code := (\<lambda>off. Nop)(20 := Call 10, 99 := Call 10),
                      stepModeCounters := Some [0 \<mapsto> 1]\<rparr>"

definition exampleLostState :: DebugState where
  "exampleLostState =
     exampleLiveState\<lparr>code := (\<lambda>off. Nop)(20 := Nop, 99 := Nop),
                      stepModeCounters := Some Map.empty\<rparr>"

text \<open>
  A module compiled without debugging whose bytecode is kept, one whose bytecode is not
  kept, and a debugged module of 1000001 bytes.
\<close>

definition exampleNoDebugState :: DebugState where
  "exampleNoDebugState = exampleState\<lparr>metadata := exampleMetadata\<lparr>debugEnabled := False\<rparr>\<rparr>"

definition exampleNoBytecodeState :: DebugState where
  "exampleNoBytecodeState = exampleNoDebugState\<lparr>maybeBytecode := None\<rparr>"

definition exampleBigState :: DebugState where
  "exampleBigState = exampleState\<lparr>maybeBytecode := Some (replicate 1000001 0)\<rparr>"

section \<open>Theorems\<close>

lemma SlowCallSiteSearchByOffset_None:
  "SlowCallSiteSearchByOffset cs off = None \<longleftrightarrow>
     \<not> (\<exists>c \<in> set cs. kind c = Breakpoint \<and> lineOrBytecode c = off)"
  by (induction cs) auto

text \<open>
  C9. \<open>hasBreakpointTrapAtOffset\<close> answers true exactly when debugging is enabled and
  some call site of kind \<open>Breakpoint\<close> has its \<open>lineOrBytecode\<close> equal to the offset. The
  return-address offset plays no part, and with debugging disabled the answer is false
  for every offset.
\<close>

theorem hasBreakpointTrapAtOffset_iff:
  "(hasBreakpointTrapAtOffset s off \<longleftrightarrow>
      debugEnabled (metadata s) \<and>
      (\<exists>c \<in> set (callSites (metadata s)). kind c = Breakpoint \<and> lineOrBytecode c = off)) \<and>
   (hasBreakpointTrapAtOffset (s\<lparr>metadata := (metadata s)\<lparr>debugEnabled := False\<rparr>\<rparr>) off
      = False) \<and>
   (hasBreakpointTrapAtOffset
      (s\<lparr>metadata := (metadata s)\<lparr>debugEnabled := True,
           callSites := [\<lparr>kind = Breakpoint, lineOrBytecode = 7, returnAddressOffset = 99\<rparr>]\<rparr>\<rparr>)
      off \<longleftrightarrow> off = 7)"
  using SlowCallSiteSearchByOffset_None [of "callSites (metadata s)" off]
  by (auto simp: hasBreakpointTrapAtOffset_def)

subsection \<open>The code patcher and the loops over the call sites\<close>

lemma toggleDebugTrap_Inr:
  "toggleDebugTrap off en s = Inr s' \<Longrightarrow>
     s' = s\<lparr>code := (code s)(off := (if en then Call (farJumpTarget (metadata s) off) else Nop))\<rparr>"
  by (auto simp: toggleDebugTrap_def Let_def patchNopToCall_def patchCallToNop_def
        farJumpTarget_def split: if_splits)

lemma toggleDebugTrap_ok:
  "toggleDebugTrap off en s =
     (if off = 0 \<or> (en \<and> debugTrapFarJumpOffsets (metadata s) = []) then Inl AssertionFailure
      else Inr (s\<lparr>code := (code s)(off := (if en then Call (farJumpTarget (metadata s) off) else Nop))\<rparr>))"
  by (auto simp: toggleDebugTrap_def Let_def patchNopToCall_def patchCallToNop_def
        farJumpTarget_def split: if_splits)

lemma incrementStepModeCount_sites_Inr:
  "incrementStepModeCount_sites cr cs s = Inr s' \<Longrightarrow>
     s' = s\<lparr>code := (\<lambda>off. if off \<in> breakpointOffsetsIn cr cs
                            then Call (farJumpTarget (metadata s) off) else code s off)\<rparr>"
proof (induction cs arbitrary: s)
  case Nil
  then show ?case by (simp add: breakpointOffsetsIn_def)
next
  case (Cons c cs)
  show ?case
  proof (cases "kind c = Breakpoint \<and> rangeBegin cr \<le> returnAddressOffset c \<and>
                 returnAddressOffset c \<le> rangeEnd cr")
    case False
    then have "incrementStepModeCount_sites cr cs s = Inr s'"
      using Cons.prems by (auto simp: Let_def split: if_splits)
    from Cons.IH [OF this] False show ?thesis
      by (auto simp: breakpointOffsetsIn_def)
  next
    case True
    then obtain s1 where t: "toggleDebugTrap (returnAddressOffset c) True s = Inr s1"
      and r: "incrementStepModeCount_sites cr cs s1 = Inr s'"
      using Cons.prems by (auto simp: Let_def split: sum.splits)
    note s1 = toggleDebugTrap_Inr [OF t]
    have "s' = s1\<lparr>code := (\<lambda>off. if off \<in> breakpointOffsetsIn cr cs
                            then Call (farJumpTarget (metadata s1) off) else code s1 off)\<rparr>"
      by (rule Cons.IH [OF r])
    then show ?thesis using True
      by (auto simp: s1 breakpointOffsetsIn_def fun_eq_iff)
  qed
qed

lemma breakpointOffsetsIn_Cons:
  "breakpointOffsetsIn cr (c # cs) =
     (if kind c = Breakpoint \<and> rangeBegin cr \<le> returnAddressOffset c \<and>
         returnAddressOffset c \<le> rangeEnd cr
      then insert (returnAddressOffset c) (breakpointOffsetsIn cr cs)
      else breakpointOffsetsIn cr cs)"
  by (simp add: breakpointOffsetsIn_def)

lemma decrementStepModeCount_sites_Inr:
  "decrementStepModeCount_sites cr cs s = Inr s' \<Longrightarrow>
     s' = s\<lparr>code := (\<lambda>off. if off \<in> breakpointOffsetsIn cr cs
                            then (if hasBreakpointSite s off
                                  then Call (farJumpTarget (metadata s) off) else Nop)
                            else code s off)\<rparr>"
proof (induction cs arbitrary: s)
  case Nil
  then show ?case by (simp add: breakpointOffsetsIn_def)
next
  case (Cons c cs)
  show ?case
  proof (cases "kind c = Breakpoint \<and> rangeBegin cr \<le> returnAddressOffset c \<and>
                 returnAddressOffset c \<le> rangeEnd cr")
    case False
    then have "decrementStepModeCount_sites cr cs s = Inr s'"
      using Cons.prems by (auto simp: Let_def split: if_splits)
    moreover have "breakpointOffsetsIn cr (c # cs) = breakpointOffsetsIn cr cs"
      using False by (auto simp: breakpointOffsetsIn_Cons)
    ultimately show ?thesis using Cons.IH by simp
  next
    case True
    let ?r = "returnAddressOffset c"
    let ?new = "\<lambda>off. if hasBreakpointSite s off
                       then Call (farJumpTarget (metadata s) off) else Nop"
    from True obtain s1 where
      t: "toggleDebugTrap ?r (hasBreakpointSite s ?r) s = Inr s1"
      and r: "decrementStepModeCount_sites cr cs s1 = Inr s'"
      using Cons.prems by (auto simp: Let_def split: sum.splits)
    have s1: "s1 = s\<lparr>code := (code s)(?r := ?new ?r)\<rparr>"
      using toggleDebugTrap_Inr [OF t] by simp
    have h: "hasBreakpointSite s1 = hasBreakpointSite s"
      by (simp add: s1 hasBreakpointSite_def fun_eq_iff)
    have md: "metadata s1 = metadata s"
      by (simp add: s1)
    have cd: "code s1 = (code s)(?r := ?new ?r)"
      by (simp add: s1)
    have upd: "s1\<lparr>code := g\<rparr> = s\<lparr>code := g\<rparr>" for g
      by (simp add: s1)
    have "s' = s\<lparr>code := (\<lambda>off. if off \<in> breakpointOffsetsIn cr cs then ?new off
                                else ((code s)(?r := ?new ?r)) off)\<rparr>"
      using Cons.IH [OF r] unfolding h md cd upd .
    moreover have "(\<lambda>off. if off \<in> breakpointOffsetsIn cr cs then ?new off
                                else ((code s)(?r := ?new ?r)) off) =
        (\<lambda>off. if off \<in> breakpointOffsetsIn cr (c # cs) then ?new off else code s off)"
      using True by (auto simp: breakpointOffsetsIn_Cons fun_eq_iff)
    ultimately show ?thesis by simp
  qed
qed

lemma incrementStepModeCount_sites_wf:
  "incrementStepModeCount_sites cr cs s = Inr s' \<Longrightarrow>
     (\<forall>off \<in> breakpointOffsetsIn cr cs. off \<noteq> 0) \<and>
     (breakpointOffsetsIn cr cs \<noteq> {} \<longrightarrow> debugTrapFarJumpOffsets (metadata s) \<noteq> [])"
proof (induction cs arbitrary: s)
  case Nil
  then show ?case by (simp add: breakpointOffsetsIn_def)
next
  case (Cons c cs)
  show ?case
  proof (cases "kind c = Breakpoint \<and> rangeBegin cr \<le> returnAddressOffset c \<and>
                 returnAddressOffset c \<le> rangeEnd cr")
    case False
    then have "incrementStepModeCount_sites cr cs s = Inr s'"
      using Cons.prems by (auto simp: Let_def split: if_splits)
    from Cons.IH [OF this] False show ?thesis
      by (auto simp: breakpointOffsetsIn_def)
  next
    case True
    then obtain s1 where t: "toggleDebugTrap (returnAddressOffset c) True s = Inr s1"
      and r: "incrementStepModeCount_sites cr cs s1 = Inr s'"
      using Cons.prems by (auto simp: Let_def split: sum.splits)
    note s1 = toggleDebugTrap_Inr [OF t]
    have nz: "returnAddressOffset c \<noteq> 0 \<and> debugTrapFarJumpOffsets (metadata s) \<noteq> []"
      using t by (auto simp: toggleDebugTrap_ok split: if_splits)
    from Cons.IH [OF r] nz True show ?thesis
      by (auto simp: s1 breakpointOffsetsIn_def)
  qed
qed

subsection \<open>The step-mode counter\<close>

lemma incrementStepModeCount_absent:
  assumes "debugEnabled (metadata s)" "funcCodeRange (metadata s) f = Inr cr"
    "\<not> stepModeEnabled s f"
    "incrementStepModeCount env f s = Inr (True, s')"
  shows "\<exists>m. m f = None \<and> (stepModeCounters s = None \<or> stepModeCounters s = Some m) \<and>
     s' = s\<lparr>code := (\<lambda>off. if off \<in> breakpointOffsetsIn cr (callSites (metadata s))
                             then Call (farJumpTarget (metadata s) off) else code s off),
            stepModeCounters := Some (m(f \<mapsto> 1))\<rparr> \<and>
     (\<forall>off \<in> breakpointOffsetsIn cr (callSites (metadata s)). off \<noteq> 0) \<and>
     (breakpointOffsetsIn cr (callSites (metadata s)) \<noteq> {} \<longrightarrow>
        debugTrapFarJumpOffsets (metadata s) \<noteq> [])"
proof -
  define m where "m = (case stepModeCounters s of None \<Rightarrow> Map.empty | Some m \<Rightarrow> m)"
  have mf: "m f = None"
    using assms(3) by (auto simp: m_def stepModeEnabled_def split: option.splits)
  have st: "stepModeCounters s = None \<or> stepModeCounters s = Some m"
    by (auto simp: m_def split: option.splits)
  let ?s1 = "s\<lparr>stepModeCounters := Some (m(f \<mapsto> 1))\<rparr>"
  have loop: "incrementStepModeCount_sites cr (callSites (metadata s)) ?s1 = Inr s'"
    using assms(1,2,4) mf
    by (auto simp: incrementStepModeCount_def Let_def m_def [symmetric]
          split: if_splits sum.splits)
  from incrementStepModeCount_sites_Inr [OF loop] incrementStepModeCount_sites_wf [OF loop]
  show ?thesis using mf st by (intro exI [of _ m]) (simp cong: if_cong)
qed

lemma decrementStepModeCount_sites_counters:
  "decrementStepModeCount_sites cr cs s = Inr s' \<Longrightarrow> stepModeCounters s' = stepModeCounters s"
  by (drule decrementStepModeCount_sites_Inr) simp

lemma decrementStepModeCount_not_last:
  assumes "decrementStepModeCount f s = Inr (ok, s')" "stepModeEnabled s' f"
  shows "code s' = code s"
  using assms
  by (auto simp: decrementStepModeCount_def stepModeEnabled_def Let_def
        dest!: decrementStepModeCount_sites_counters
        split: if_splits sum.splits option.splits)

lemmas model_defs =
  toggleDebugTrap_def farJumpIndex_def farJumpScan.simps patchNopToCall_def patchCallToNop_def
  trapEnabled_def hasBreakpointTrapAtOffset_def funcCodeRange_def lookupRange_def
  hasBreakpointSite_def getOrCreateBreakpointSite_def destroyBreakpointSite_def
  stepModeEnabled_def incrementStepModeCount_def decrementStepModeCount_def
  toggleBreakpointTrap_def adjustEnterAndLeaveFrameTrapsState_def farJumpTarget_def
  breakpointOffsetsIn_def frameOffsets_def exampleEnv_def exampleMetadata_def exampleState_def
  Let_def

subsection \<open>The far jump of an enabled trap\<close>

lemma farJumpScan_all:
  "\<forall>j. i \<le> j \<and> j < length fj \<longrightarrow> off < fj ! j \<Longrightarrow> i \<le> length fj \<Longrightarrow>
     farJumpScan fj off i = length fj"
proof (induction fj off i rule: farJumpScan.induct)
  case (1 fj off i)
  then show ?case by (subst farJumpScan.simps) auto
qed

lemma farJumpIndex_ascending:
  assumes "sorted fj" "fj \<noteq> []"
  shows "farJumpIndex fj off = (if off < hd fj then length fj - 1 else 0)"
proof (cases "off < hd fj")
  case True
  have h: "hd fj = fj ! 0" using assms(2) by (simp add: hd_conv_nth)
  have "\<forall>j. 0 \<le> j \<and> j < length fj \<longrightarrow> off < fj ! j"
  proof (intro allI impI)
    fix j assume "0 \<le> j \<and> j < length fj"
    then have "fj ! 0 \<le> fj ! j" using assms(1) by (simp add: sorted_iff_nth_mono)
    then show "off < fj ! j" using True h by simp
  qed
  then have "farJumpScan fj off 0 = length fj" by (rule farJumpScan_all) simp
  then show ?thesis using True by (simp add: farJumpIndex_def)
next
  case False
  have h: "hd fj = fj ! 0" using assms(2) by (simp add: hd_conv_nth)
  have "farJumpScan fj off 0 = 0" using assms(2) False h by (subst farJumpScan.simps) simp
  then show ?thesis using False assms(2) by (simp add: farJumpIndex_def)
qed

text \<open>
  C3. On the ascending table \<open>[10, 100]\<close>, \<open>toggleDebugTrap\<close> with \<open>enabled = true\<close>
  patches the trap at offset 99 to call the far jump at 10, at distance 89, although the
  far jump at 100 is at distance 1; and the trap at offset 9 to call the far jump at 100,
  at distance 91, although the one at 10 is at distance 1. The scan advances while
  \<open>offset < farJumpOffsets[i]\<close>, so on an ascending table it stops at once or runs to
  the end.
\<close>

theorem toggleDebugTrap_far_jump_not_nearest:
  "debugTrapFarJumpOffsets (metadata exampleState) = [10, 100] \<and>
   toggleDebugTrap 99 True exampleState =
     Inr (exampleState\<lparr>code := (code exampleState)(99 := Call 10)\<rparr>) \<and>
   (100 :: u32) - 99 < 99 - 10 \<and>
   toggleDebugTrap 9 True exampleState =
     Inr (exampleState\<lparr>code := (code exampleState)(9 := Call 100)\<rparr>) \<and>
   (10 :: u32) - 9 < 100 - 9"
  by (simp add: model_defs)

subsection \<open>Contract violations\<close>

lemma error_is_AssertionFailure: "(e :: error) = AssertionFailure"
  by (cases e) simp

text \<open>
  C8, as the claim states it, fails. Offset 5 is neither the bytecode offset nor the
  return address of a call site of the example. \<open>toggleBreakpointTrap\<close> at 5 asserts
  nothing and returns with the state unchanged, and \<open>toggleDebugTrap\<close> at 5 asserts
  nothing and patches a call there.
\<close>

theorem toggleBreakpointTrap_no_call_site_counterexample:
  "SlowCallSiteSearchByOffset (callSites (metadata exampleState)) 5 = None \<and>
   5 \<notin> set (map returnAddressOffset (callSites (metadata exampleState))) \<and>
   toggleBreakpointTrap 5 True exampleState \<noteq> Inl AssertionFailure \<and>
   toggleBreakpointTrap 5 True exampleState = Inr exampleState \<and>
   toggleDebugTrap 5 True exampleState =
     Inr (exampleState\<lparr>code := (code exampleState)(5 := Call 100)\<rparr>)"
  by (simp add: model_defs)

text \<open>
  C8, amended. \<open>toggleBreakpointTrap\<close> at an offset with no \<open>Breakpoint\<close> call site
  returns without patching and without an assertion, and \<open>toggleDebugTrap\<close> asserts of
  its offset only that it is not zero: with a far jump to call, or to disable, it patches
  whatever non-zero offset it is given. \<open>decrementStepModeCount\<close> for a function whose
  counter is absent fails an assertion, and so does \<open>toggleDebugTrap\<close> with
  \<open>enabled = true\<close> on an empty far-jump table.
\<close>

theorem contract_violations:
  "(debugEnabled (metadata s1) \<and>
      SlowCallSiteSearchByOffset (callSites (metadata s1)) off1 = None \<longrightarrow>
      toggleBreakpointTrap off1 enabled s1 = Inr s1) \<and>
   (\<not> stepModeEnabled s2 f \<longrightarrow> decrementStepModeCount f s2 = Inl AssertionFailure) \<and>
   (debugTrapFarJumpOffsets (metadata s3) = [] \<longrightarrow>
      toggleDebugTrap off3 True s3 = Inl AssertionFailure) \<and>
   (off4 \<noteq> 0 \<and> (enabled4 \<longrightarrow> debugTrapFarJumpOffsets (metadata s4) \<noteq> []) \<longrightarrow>
      (\<exists>s'. toggleDebugTrap off4 enabled4 s4 = Inr s')) \<and>
   toggleDebugTrap 0 enabled5 s5 = Inl AssertionFailure"
  by (auto simp: toggleBreakpointTrap_def decrementStepModeCount_def stepModeEnabled_def
        toggleDebugTrap_def Let_def error_is_AssertionFailure
        split: sum.splits option.splits)

theorem contract_violations_witness:
  "toggleBreakpointTrap 5 True exampleState = Inr exampleState \<and>
   decrementStepModeCount 0 exampleState = Inl AssertionFailure \<and>
   toggleDebugTrap 20 True
     (exampleState\<lparr>metadata := exampleMetadata\<lparr>debugTrapFarJumpOffsets := []\<rparr>\<rparr>) =
     Inl AssertionFailure \<and>
   (\<exists>s'. toggleDebugTrap 5 True exampleState = Inr s') \<and>
   toggleDebugTrap 0 True exampleState = Inl AssertionFailure"
proof -
  let ?s3 = "exampleState\<lparr>metadata := exampleMetadata\<lparr>debugTrapFarJumpOffsets := []\<rparr>\<rparr>"
  have h1: "debugEnabled (metadata exampleState) \<and>
      SlowCallSiteSearchByOffset (callSites (metadata exampleState)) 5 = None"
    by (simp add: model_defs)
  have h2: "\<not> stepModeEnabled exampleState 0"
    by (simp add: model_defs)
  have h3: "debugTrapFarJumpOffsets (metadata ?s3) = []"
    by simp
  have h4: "(5 :: u32) \<noteq> 0 \<and> (True \<longrightarrow> debugTrapFarJumpOffsets (metadata exampleState) \<noteq> [])"
    by (simp add: model_defs)
  note t = contract_violations [of exampleState 5 True exampleState 0 ?s3 20 5 True
      exampleState True exampleState]
  from t h1 have "toggleBreakpointTrap 5 True exampleState = Inr exampleState" by blast
  moreover from t h2 have "decrementStepModeCount 0 exampleState = Inl AssertionFailure"
    by blast
  moreover from t h3 have "toggleDebugTrap 20 True ?s3 = Inl AssertionFailure" by blast
  moreover from t h4 have "\<exists>s'. toggleDebugTrap 5 True exampleState = Inr s'" by blast
  moreover from t have "toggleDebugTrap 0 True exampleState = Inl AssertionFailure" by blast
  ultimately show ?thesis by blast
qed

subsection \<open>Enter and leave frame traps\<close>

lemma frameOffsets_Cons:
  "frameOffsets (c # cs) =
     (if kind c = EnterFrame \<or> kind c = LeaveFrame
      then insert (returnAddressOffset c) (frameOffsets cs) else frameOffsets cs)"
  by (simp add: frameOffsets_def)

lemma adjustEnterAndLeaveFrameTrapsState_sites_Inr:
  "adjustEnterAndLeaveFrameTrapsState_sites b cs s = Inr s' \<Longrightarrow>
     s' = s\<lparr>code := (\<lambda>off. if off \<in> frameOffsets cs
                            then (if b then Call (farJumpTarget (metadata s) off) else Nop)
                            else code s off)\<rparr>"
proof (induction cs arbitrary: s)
  case Nil
  then show ?case by (simp add: frameOffsets_def)
next
  case (Cons c cs)
  show ?case
  proof (cases "kind c = EnterFrame \<or> kind c = LeaveFrame")
    case False
    then have "adjustEnterAndLeaveFrameTrapsState_sites b cs s = Inr s'"
      using Cons.prems by simp
    moreover have "frameOffsets (c # cs) = frameOffsets cs"
      using False by (simp add: frameOffsets_Cons)
    ultimately show ?thesis using Cons.IH by simp
  next
    case True
    let ?r = "returnAddressOffset c"
    let ?new = "\<lambda>off. if b then Call (farJumpTarget (metadata s) off) else Nop"
    from True obtain s1 where t: "toggleDebugTrap ?r b s = Inr s1"
      and r: "adjustEnterAndLeaveFrameTrapsState_sites b cs s1 = Inr s'"
      using Cons.prems by (auto split: sum.splits)
    have s1: "s1 = s\<lparr>code := (code s)(?r := ?new ?r)\<rparr>"
      using toggleDebugTrap_Inr [OF t] by simp
    have md: "metadata s1 = metadata s"
      by (simp add: s1)
    have cd: "code s1 = (code s)(?r := ?new ?r)"
      by (simp add: s1)
    have upd: "s1\<lparr>code := g\<rparr> = s\<lparr>code := g\<rparr>" for g
      by (simp add: s1)
    have "s' = s\<lparr>code := (\<lambda>off. if off \<in> frameOffsets cs then ?new off
                                else ((code s)(?r := ?new ?r)) off)\<rparr>"
      using Cons.IH [OF r] unfolding md cd upd .
    moreover have "(\<lambda>off. if off \<in> frameOffsets cs then ?new off
                                else ((code s)(?r := ?new ?r)) off) =
        (\<lambda>off. if off \<in> frameOffsets (c # cs) then ?new off else code s off)"
      using True by (auto simp: frameOffsets_Cons fun_eq_iff)
    ultimately show ?thesis by simp
  qed
qed

lemma adjustEnterAndLeaveFrameTrapsState_sites_ok:
  "\<forall>off \<in> frameOffsets cs. off \<noteq> 0 \<Longrightarrow>
   (b \<Longrightarrow> frameOffsets cs \<noteq> {} \<Longrightarrow> debugTrapFarJumpOffsets (metadata s) \<noteq> []) \<Longrightarrow>
   \<exists>s'. adjustEnterAndLeaveFrameTrapsState_sites b cs s = Inr s'"
proof (induction cs arbitrary: s)
  case Nil
  then show ?case by simp
next
  case (Cons c cs)
  show ?case
  proof (cases "kind c = EnterFrame \<or> kind c = LeaveFrame")
    case False
    have "\<exists>s'. adjustEnterAndLeaveFrameTrapsState_sites b cs s = Inr s'"
      using Cons.prems False by (intro Cons.IH) (auto simp: frameOffsets_Cons)
    then show ?thesis using False by auto
  next
    case True
    let ?r = "returnAddressOffset c"
    have nz: "?r \<noteq> 0" and fj: "b \<Longrightarrow> debugTrapFarJumpOffsets (metadata s) \<noteq> []"
      using Cons.prems True by (auto simp: frameOffsets_Cons)
    let ?s1 = "s\<lparr>code := (code s)(?r :=
        (if b then Call (farJumpTarget (metadata s) ?r) else Nop))\<rparr>"
    have t: "toggleDebugTrap ?r b s = Inr ?s1"
      using nz fj by (simp add: toggleDebugTrap_ok)
    have "\<exists>s'. adjustEnterAndLeaveFrameTrapsState_sites b cs ?s1 = Inr s'"
      using Cons.prems True fj by (intro Cons.IH) (auto simp: frameOffsets_Cons)
    then show ?thesis using True t by auto
  qed
qed

text \<open>When the call returns: the assertions that can fail are listed.\<close>

lemma adjustEnterAndLeaveFrameTrapsState_returns:
  assumes "debugEnabled (metadata s)"
    and "enabled \<or> enterAndLeaveFrameTrapsCounter s \<noteq> 0"
    and "\<forall>off \<in> frameOffsets (callSites (metadata s)). off \<noteq> 0"
    and "debugTrapFarJumpOffsets (metadata s) \<noteq> []"
  shows "\<exists>s'. adjustEnterAndLeaveFrameTrapsState enabled s = Inr s'"
proof -
  have "\<exists>s'. adjustEnterAndLeaveFrameTrapsState_sites b (callSites (metadata s)) s1 = Inr s'"
    if "metadata s1 = metadata s" for b s1
    using assms(3,4) that by (intro adjustEnterAndLeaveFrameTrapsState_sites_ok) simp_all
  then show ?thesis
    using assms(1,2)
    by (auto simp: adjustEnterAndLeaveFrameTrapsState_def Let_def word_gt_0)
qed

text \<open>
  C10. A call of \<open>adjustEnterAndLeaveFrameTrapsState\<close> that returns changes the counter
  by one and, besides, only the code. The code is left as it was when the counter is zero
  before and after, or nonzero before and after: that is every increment but the one from
  0 (and the one that wraps \<open>2^32 - 1\<close> to 0), and every decrement but the one from 1. The
  increment from 0 enables the trap of every \<open>EnterFrame\<close> and \<open>LeaveFrame\<close> call site,
  the decrement from 1 disables them all, and no other offset of the code is touched.
\<close>

theorem adjustEnterAndLeaveFrameTrapsState_effect:
  assumes "adjustEnterAndLeaveFrameTrapsState enabled s = Inr s'"
  shows "enterAndLeaveFrameTrapsCounter s' =
           (if enabled then enterAndLeaveFrameTrapsCounter s + 1
            else enterAndLeaveFrameTrapsCounter s - 1) \<and>
         s' = s\<lparr>enterAndLeaveFrameTrapsCounter := enterAndLeaveFrameTrapsCounter s',
                 code := code s'\<rparr> \<and>
         ((enterAndLeaveFrameTrapsCounter s = 0) = (enterAndLeaveFrameTrapsCounter s' = 0)
            \<longrightarrow> code s' = code s) \<and>
         (enabled \<and> enterAndLeaveFrameTrapsCounter s \<noteq> 0 \<and>
            enterAndLeaveFrameTrapsCounter s \<noteq> - 1 \<longrightarrow> code s' = code s) \<and>
         (\<not> enabled \<and> enterAndLeaveFrameTrapsCounter s \<noteq> 1 \<longrightarrow> code s' = code s) \<and>
         (enabled \<and> enterAndLeaveFrameTrapsCounter s = 0 \<longrightarrow>
            (\<forall>off \<in> frameOffsets (callSites (metadata s)). trapEnabled s' off)) \<and>
         (\<not> enabled \<and> enterAndLeaveFrameTrapsCounter s = 1 \<longrightarrow>
            (\<forall>off \<in> frameOffsets (callSites (metadata s)). \<not> trapEnabled s' off)) \<and>
         (\<forall>off. off \<notin> frameOffsets (callSites (metadata s)) \<longrightarrow> code s' off = code s off)"
proof -
  let ?c = "enterAndLeaveFrameTrapsCounter s"
  let ?c' = "if enabled then ?c + 1 else ?c - 1"
  let ?s1 = "s\<lparr>enterAndLeaveFrameTrapsCounter := ?c'\<rparr>"
  have ok: "debugEnabled (metadata s)" "enabled \<or> ?c \<noteq> 0"
    using assms by (auto simp: adjustEnterAndLeaveFrameTrapsState_def word_gt_0 split: if_splits)
  have s1: "(if enabled then s\<lparr>enterAndLeaveFrameTrapsCounter := ?c + 1\<rparr>
             else s\<lparr>enterAndLeaveFrameTrapsCounter := ?c - 1\<rparr>) = ?s1"
    by simp
  have body: "adjustEnterAndLeaveFrameTrapsState enabled s =
      (if (?c = 0) = (?c' = 0) then Inr ?s1
       else adjustEnterAndLeaveFrameTrapsState_sites (?c' \<noteq> 0) (callSites (metadata s)) ?s1)"
    using ok unfolding adjustEnterAndLeaveFrameTrapsState_def Let_def s1
    by (auto simp: word_gt_0)
  have wrap: "?c + 1 = 0 \<longleftrightarrow> ?c = - 1"
    by (simp add: eq_neg_iff_add_eq_0)
  have one: "?c - 1 = 0 \<longleftrightarrow> ?c = 1"
    by simp
  show ?thesis
  proof (cases "(?c = 0) = (?c' = 0)")
    case True
    then have "s' = ?s1" using assms body by simp
    then show ?thesis using True wrap one ok(2) by (auto simp: trapEnabled_def)
  next
    case False
    then have "adjustEnterAndLeaveFrameTrapsState_sites (?c' \<noteq> 0) (callSites (metadata s)) ?s1
        = Inr s'"
      using assms body by simp
    from adjustEnterAndLeaveFrameTrapsState_sites_Inr [OF this]
    have s': "s' = s\<lparr>enterAndLeaveFrameTrapsCounter := ?c',
        code := (\<lambda>off. if off \<in> frameOffsets (callSites (metadata s))
                        then (if ?c' \<noteq> 0 then Call (farJumpTarget (metadata s) off) else Nop)
                        else code s off)\<rparr>"
      by (simp cong: if_cong)
    have cnt: "enterAndLeaveFrameTrapsCounter s' = ?c'"
      by (subst s') simp
    have cd: "code s' = (\<lambda>off. if off \<in> frameOffsets (callSites (metadata s))
                        then (if ?c' \<noteq> 0 then Call (farJumpTarget (metadata s) off) else Nop)
                        else code s off)"
      by (subst s') simp
    have rec: "s' = s\<lparr>enterAndLeaveFrameTrapsCounter := enterAndLeaveFrameTrapsCounter s',
                 code := code s'\<rparr>"
      unfolding cnt cd by (rule s')
    show ?thesis
      using False wrap one rec cnt ok(2)
      by (auto simp: trapEnabled_def cd)
  qed
qed

theorem adjustEnterAndLeaveFrameTrapsState_effect_witness:
  "adjustEnterAndLeaveFrameTrapsState True exampleState = Inr exampleFrameState \<and>
   trapEnabled exampleFrameState 12 \<and> trapEnabled exampleFrameState 190 \<and>
   adjustEnterAndLeaveFrameTrapsState True exampleFrameState =
     Inr (exampleFrameState\<lparr>enterAndLeaveFrameTrapsCounter := 2\<rparr>) \<and>
   adjustEnterAndLeaveFrameTrapsState False exampleFrameState =
     Inr (exampleState\<lparr>code := (\<lambda>off. Nop)(12 := Nop, 190 := Nop)\<rparr>) \<and>
   \<not> trapEnabled (exampleState\<lparr>code := (\<lambda>off. Nop)(12 := Nop, 190 := Nop)\<rparr>) 12 \<and>
   \<not> trapEnabled (exampleState\<lparr>code := (\<lambda>off. Nop)(12 := Nop, 190 := Nop)\<rparr>) 190"
proof -
  let ?s2 = "exampleFrameState\<lparr>enterAndLeaveFrameTrapsCounter := 2\<rparr>"
  let ?s0 = "exampleState\<lparr>code := (\<lambda>off. Nop)(12 := Nop, 190 := Nop)\<rparr>"
  have up: "adjustEnterAndLeaveFrameTrapsState True exampleState = Inr exampleFrameState"
    by (simp add: model_defs exampleFrameState_def)
  have more: "adjustEnterAndLeaveFrameTrapsState True exampleFrameState = Inr ?s2"
    by (simp add: model_defs exampleFrameState_def)
  have down: "adjustEnterAndLeaveFrameTrapsState False exampleFrameState = Inr ?s0"
    by (simp add: model_defs exampleFrameState_def)
  have fr: "frameOffsets (callSites (metadata exampleState)) = {12, 190}"
    "frameOffsets (callSites (metadata exampleFrameState)) = {12, 190}"
    by (simp_all add: model_defs exampleFrameState_def)
  have c0: "enterAndLeaveFrameTrapsCounter exampleState = 0"
    and c1: "enterAndLeaveFrameTrapsCounter exampleFrameState = 1"
    by (simp_all add: model_defs exampleFrameState_def)
  have "\<forall>off \<in> frameOffsets (callSites (metadata exampleState)).
          trapEnabled exampleFrameState off"
    using adjustEnterAndLeaveFrameTrapsState_effect [OF up] c0 by blast
  then have "trapEnabled exampleFrameState 12 \<and> trapEnabled exampleFrameState 190"
    unfolding fr by simp
  moreover have "\<forall>off \<in> frameOffsets (callSites (metadata exampleFrameState)).
          \<not> trapEnabled ?s0 off"
    using adjustEnterAndLeaveFrameTrapsState_effect [OF down] c1 by blast
  then have "\<not> trapEnabled ?s0 12 \<and> \<not> trapEnabled ?s0 190"
    unfolding fr by simp
  moreover have "code ?s2 = code exampleFrameState"
    using adjustEnterAndLeaveFrameTrapsState_effect [OF more] c1 by simp
  ultimately show ?thesis using up more down by blast
qed

subsection \<open>Breakpoint traps and step mode\<close>

lemma decrementStepModeCount_code_outside:
  assumes "funcCodeRange (metadata s) f = Inr cr"
    and "decrementStepModeCount f s = Inr (ok, s')"
    and "off \<notin> breakpointOffsetsIn cr (callSites (metadata s))"
  shows "code s' off = code s off"
  using assms
  by (auto simp: decrementStepModeCount_def split: if_splits sum.splits option.splits
        dest!: decrementStepModeCount_sites_Inr)

text \<open>
  C1, as the claim states it, fails. In the example, offset 20 is the bytecode offset and
  the return address of a \<open>Breakpoint\<close> call site of function 0. With a breakpoint site
  registered at 20, the first \<open>incrementStepModeCount\<close> of function 0 leaves the trap at
  20 enabled while the function is in step mode.
\<close>

theorem step_mode_trap_counterexample:
  "incrementStepModeCount exampleEnv 0 exampleSiteState = Inr (True, exampleSteppedState) \<and>
   map_option funcIndex (lookupRange exampleSteppedState 20) = Some 0 \<and>
   hasBreakpointSite exampleSteppedState 20 \<and>
   stepModeEnabled exampleSteppedState 0 \<and>
   trapEnabled exampleSteppedState 20 \<and>
   \<not> (trapEnabled exampleSteppedState 20 \<longleftrightarrow>
        hasBreakpointSite exampleSteppedState 20 \<and> \<not> stepModeEnabled exampleSteppedState 0)"
  by (simp add: model_defs exampleSiteState_def exampleSteppedState_def)

text \<open>
  C1, amended. \<open>toggleBreakpointTrap\<close> leaves the state unchanged while the function
  that \<open>lookupRange\<close> finds for the call site's return address has a step-mode counter;
  when that function has no counter it is \<open>toggleDebugTrap\<close> at the return address:
  afterwards the trap there is enabled exactly when that was asked, and no other offset
  of the code has changed. The \<open>incrementStepModeCount\<close> that gives a function its counter
  leaves the trap of every \<open>Breakpoint\<close> call site in the function's code range enabled,
  whether or not a breakpoint site exists, and changes no other offset. A
  \<open>decrementStepModeCount\<close> changes the code only if it removes the counter, and then
  only at the return addresses of those call sites. Which state it gives each of them
  is not part of this statement.
\<close>

theorem breakpoint_trap_state:
  "(debugEnabled (metadata sa) \<and>
      SlowCallSiteSearchByOffset (callSites (metadata sa)) offa = Some ca \<and>
      lookupRange sa (returnAddressOffset ca) = Some ra \<and> isFunction ra \<and>
      stepModeEnabled sa (funcIndex ra) \<longrightarrow>
      toggleBreakpointTrap offa ena sa = Inr sa) \<and>
   (debugEnabled (metadata sb) \<and>
      SlowCallSiteSearchByOffset (callSites (metadata sb)) offb = Some cb \<and>
      lookupRange sb (returnAddressOffset cb) = Some rb \<and> isFunction rb \<and>
      \<not> stepModeEnabled sb (funcIndex rb) \<longrightarrow>
      toggleBreakpointTrap offb enb sb = toggleDebugTrap (returnAddressOffset cb) enb sb \<and>
      (\<forall>sb'. toggleBreakpointTrap offb enb sb = Inr sb' \<longrightarrow>
         trapEnabled sb' (returnAddressOffset cb) = enb \<and>
         (\<forall>off. off \<noteq> returnAddressOffset cb \<longrightarrow> code sb' off = code sb off))) \<and>
   (\<not> stepModeEnabled sc fc \<and> funcCodeRange (metadata sc) fc = Inr crc \<and>
      incrementStepModeCount env fc sc = Inr (True, sc') \<longrightarrow>
      stepModeEnabled sc' fc \<and>
      (\<forall>off \<in> breakpointOffsetsIn crc (callSites (metadata sc)). trapEnabled sc' off) \<and>
      (\<forall>off. off \<notin> breakpointOffsetsIn crc (callSites (metadata sc)) \<longrightarrow>
         code sc' off = code sc off)) \<and>
   (funcCodeRange (metadata sd) fd = Inr crd \<and>
      decrementStepModeCount fd sd = Inr (ok, sd') \<longrightarrow>
      (stepModeEnabled sd' fd \<longrightarrow> code sd' = code sd) \<and>
      (\<forall>off. off \<notin> breakpointOffsetsIn crd (callSites (metadata sd)) \<longrightarrow>
         code sd' off = code sd off))"
proof (intro conjI impI)
  assume "debugEnabled (metadata sa) \<and>
      SlowCallSiteSearchByOffset (callSites (metadata sa)) offa = Some ca \<and>
      lookupRange sa (returnAddressOffset ca) = Some ra \<and> isFunction ra \<and>
      stepModeEnabled sa (funcIndex ra)"
  then show "toggleBreakpointTrap offa ena sa = Inr sa"
    by (simp add: toggleBreakpointTrap_def)
next
  assume b: "debugEnabled (metadata sb) \<and>
      SlowCallSiteSearchByOffset (callSites (metadata sb)) offb = Some cb \<and>
      lookupRange sb (returnAddressOffset cb) = Some rb \<and> isFunction rb \<and>
      \<not> stepModeEnabled sb (funcIndex rb)"
  then show eq: "toggleBreakpointTrap offb enb sb =
      toggleDebugTrap (returnAddressOffset cb) enb sb"
    by (simp add: toggleBreakpointTrap_def)
  show "\<forall>sb'. toggleBreakpointTrap offb enb sb = Inr sb' \<longrightarrow>
         trapEnabled sb' (returnAddressOffset cb) = enb \<and>
         (\<forall>off. off \<noteq> returnAddressOffset cb \<longrightarrow> code sb' off = code sb off)"
    unfolding eq by (auto dest!: toggleDebugTrap_Inr simp: trapEnabled_def split: if_splits)
next
  assume c: "\<not> stepModeEnabled sc fc \<and> funcCodeRange (metadata sc) fc = Inr crc \<and>
      incrementStepModeCount env fc sc = Inr (True, sc')"
  then have de: "debugEnabled (metadata sc)"
    by (auto simp: incrementStepModeCount_def split: if_splits)
  from c incrementStepModeCount_absent [OF de, of fc crc env sc']
  obtain m where sc': "sc' = sc\<lparr>code := (\<lambda>off.
        if off \<in> breakpointOffsetsIn crc (callSites (metadata sc))
        then Call (farJumpTarget (metadata sc) off) else code sc off),
      stepModeCounters := Some (m(fc \<mapsto> 1))\<rparr>"
    by blast
  show "stepModeEnabled sc' fc"
    by (subst sc') (simp add: stepModeEnabled_def)
  show "\<forall>off \<in> breakpointOffsetsIn crc (callSites (metadata sc)). trapEnabled sc' off"
    by (subst sc') (simp add: trapEnabled_def)
  show "\<forall>off. off \<notin> breakpointOffsetsIn crc (callSites (metadata sc)) \<longrightarrow>
         code sc' off = code sc off"
    by (subst sc') simp
next
  assume d: "funcCodeRange (metadata sd) fd = Inr crd \<and>
      decrementStepModeCount fd sd = Inr (ok, sd')"
  show "code sd' = code sd" if "stepModeEnabled sd' fd"
    using d that decrementStepModeCount_not_last by blast
  show "\<forall>off. off \<notin> breakpointOffsetsIn crd (callSites (metadata sd)) \<longrightarrow>
         code sd' off = code sd off"
    using d decrementStepModeCount_code_outside by blast
qed

lemmas example_defs = model_defs exampleSiteState_def exampleSteppedState_def
  exampleUnsteppedState_def exampleFrameState_def

theorem breakpoint_trap_state_witness:
  "toggleBreakpointTrap 20 False exampleSteppedState = Inr exampleSteppedState \<and>
   toggleBreakpointTrap 7 True exampleSiteState =
     Inr (exampleSiteState\<lparr>code := (code exampleSiteState)(99 := Call 10)\<rparr>) \<and>
   trapEnabled (exampleSiteState\<lparr>code := (code exampleSiteState)(99 := Call 10)\<rparr>) 99 \<and>
   code (exampleSiteState\<lparr>code := (code exampleSiteState)(99 := Call 10)\<rparr>) 20 =
     code exampleSiteState 20 \<and>
   incrementStepModeCount exampleEnv 0 exampleSiteState = Inr (True, exampleSteppedState) \<and>
   stepModeEnabled exampleSteppedState 0 \<and>
   trapEnabled exampleSteppedState 20 \<and> trapEnabled exampleSteppedState 99 \<and>
   \<not> hasBreakpointSite exampleSiteState 7 \<and> \<not> hasBreakpointSite exampleSiteState 99 \<and>
   code exampleSteppedState 12 = code exampleSiteState 12 \<and>
   decrementStepModeCount 0 (exampleSteppedState\<lparr>stepModeCounters := Some [0 \<mapsto> 2]\<rparr>) =
     Inr (True, exampleSteppedState) \<and>
   code exampleSteppedState =
     code (exampleSteppedState\<lparr>stepModeCounters := Some [0 \<mapsto> 2]\<rparr>) \<and>
   decrementStepModeCount 0 exampleSteppedState = Inr (True, exampleUnsteppedState) \<and>
   code exampleUnsteppedState 12 = code exampleSteppedState 12"
proof -
  let ?c20 = "\<lparr>kind = Breakpoint, lineOrBytecode = 20, returnAddressOffset = 20\<rparr>"
  let ?c7 = "\<lparr>kind = Breakpoint, lineOrBytecode = 7, returnAddressOffset = 99\<rparr>"
  let ?r = "\<lparr>isFunction = True, rangeBegin = 8, rangeEnd = 200, funcIndex = 0,
             funcLineOrBytecode = 3\<rparr>"
  let ?sb' = "exampleSiteState\<lparr>code := (code exampleSiteState)(99 := Call 10)\<rparr>"
  let ?s2 = "exampleSteppedState\<lparr>stepModeCounters := Some [0 \<mapsto> 2]\<rparr>"
  note t = breakpoint_trap_state [of exampleSteppedState 20 ?c20 ?r False
      exampleSiteState 7 ?c7 ?r True exampleSiteState 0 ?r exampleEnv exampleSteppedState]
  note t1 = t [of exampleSteppedState 0 ?r True exampleUnsteppedState]
  note t2 = t [of ?s2 0 ?r True exampleSteppedState]
  have ha: "debugEnabled (metadata exampleSteppedState) \<and>
      SlowCallSiteSearchByOffset (callSites (metadata exampleSteppedState)) 20 = Some ?c20 \<and>
      lookupRange exampleSteppedState (returnAddressOffset ?c20) = Some ?r \<and> isFunction ?r \<and>
      stepModeEnabled exampleSteppedState (funcIndex ?r)"
    by (simp add: example_defs)
  have hb: "debugEnabled (metadata exampleSiteState) \<and>
      SlowCallSiteSearchByOffset (callSites (metadata exampleSiteState)) 7 = Some ?c7 \<and>
      lookupRange exampleSiteState (returnAddressOffset ?c7) = Some ?r \<and> isFunction ?r \<and>
      \<not> stepModeEnabled exampleSiteState (funcIndex ?r)"
    by (simp add: example_defs)
  have tb: "toggleDebugTrap (returnAddressOffset ?c7) True exampleSiteState = Inr ?sb'"
    by (simp add: example_defs)
  have hc: "\<not> stepModeEnabled exampleSiteState 0 \<and>
      funcCodeRange (metadata exampleSiteState) 0 = Inr ?r \<and>
      incrementStepModeCount exampleEnv 0 exampleSiteState = Inr (True, exampleSteppedState)"
    by (simp add: example_defs)
  have hd: "funcCodeRange (metadata exampleSteppedState) 0 = Inr ?r \<and>
      decrementStepModeCount 0 exampleSteppedState = Inr (True, exampleUnsteppedState)"
    by (simp add: example_defs)
  have he: "funcCodeRange (metadata ?s2) 0 = Inr ?r \<and>
      decrementStepModeCount 0 ?s2 = Inr (True, exampleSteppedState)"
    by (simp add: example_defs)
  have B: "breakpointOffsetsIn ?r (callSites (metadata exampleSiteState)) = {20, 99}"
    "breakpointOffsetsIn ?r (callSites (metadata exampleSteppedState)) = {20, 99}"
    by (simp_all add: example_defs)
  have sites: "\<not> hasBreakpointSite exampleSiteState 7" "\<not> hasBreakpointSite exampleSiteState 99"
    by (simp_all add: example_defs)
  from t1 ha have a: "toggleBreakpointTrap 20 False exampleSteppedState = Inr exampleSteppedState"
    by blast
  from t1 hb have b1: "toggleBreakpointTrap 7 True exampleSiteState =
      toggleDebugTrap (returnAddressOffset ?c7) True exampleSiteState"
    and b2: "\<forall>sb'. toggleBreakpointTrap 7 True exampleSiteState = Inr sb' \<longrightarrow>
         trapEnabled sb' (returnAddressOffset ?c7) = True \<and>
         (\<forall>off. off \<noteq> returnAddressOffset ?c7 \<longrightarrow> code sb' off = code exampleSiteState off)"
    by blast+
  have b: "toggleBreakpointTrap 7 True exampleSiteState = Inr ?sb'"
    unfolding b1 by (rule tb)
  with b2 have b': "trapEnabled ?sb' 99 \<and> code ?sb' 20 = code exampleSiteState 20" by simp
  from t1 hc have c1: "stepModeEnabled exampleSteppedState 0"
    and c2: "\<forall>off \<in> breakpointOffsetsIn ?r (callSites (metadata exampleSiteState)).
      trapEnabled exampleSteppedState off"
    and c3: "\<forall>off. off \<notin> breakpointOffsetsIn ?r (callSites (metadata exampleSiteState)) \<longrightarrow>
         code exampleSteppedState off = code exampleSiteState off"
    by blast+
  from c2 have c: "trapEnabled exampleSteppedState 20 \<and> trapEnabled exampleSteppedState 99"
    unfolding B by simp
  from c3 have c': "code exampleSteppedState 12 = code exampleSiteState 12"
    unfolding B by simp
  from t1 hd have "\<forall>off. off \<notin> breakpointOffsetsIn ?r (callSites (metadata exampleSteppedState)) \<longrightarrow>
         code exampleUnsteppedState off = code exampleSteppedState off"
    by blast
  then have d: "code exampleUnsteppedState 12 = code exampleSteppedState 12"
    unfolding B by simp
  from t2 he c1 have e: "code exampleSteppedState = code ?s2"
    by blast
  from a b b' c c' c1 d e hc hd he sites show ?thesis by blast
qed

subsection \<open>Increments followed by decrements\<close>

lemma decrementStepModeCount_times_2:
  "decrementStepModeCount_times 2 f s =
     (case decrementStepModeCount f s of
        Inl e \<Rightarrow> Inl e
      | Inr (ok, s') \<Rightarrow>
          if ok then decrementStepModeCount_times (Suc 0) f s' else Inr (False, s'))"
proof -
  have "(2::nat) = Suc (Suc 0)" by simp
  then show ?thesis by (simp only: decrementStepModeCount_times.simps)
qed

lemmas live_defs = example_defs exampleRegisteredState_def exampleLiveState_def
  exampleLiveSteppedState_def exampleLostState_def

text \<open>
  C2 does not hold of the code: \<open>decrementStepModeCount\<close> disables the trap of a live
  breakpoint. The breakpoint sites are registered under the bytecode offset of the
  breakpoint, and \<open>toggleBreakpointTrap\<close> and \<open>hasBreakpointTrapAtOffset\<close> find the call
  site by \<open>lineOrBytecode\<close>; the loop of \<open>decrementStepModeCount\<close> asks the registry for
  the call site's \<open>returnAddressOffset\<close> instead. In the example,
  \<open>getOrCreateBreakpointSite\<close> registers a site at bytecode offset 7 and
  \<open>toggleBreakpointTrap\<close> enables the trap of its call site, at return address 99. After
  one \<open>incrementStepModeCount\<close> and one \<open>decrementStepModeCount\<close> of function 0, and
  likewise after two of each, the site at 7 is still registered and function 0 is out
  of step mode, but the trap at 99 is a no-op: it was enabled before the first
  increment and is not restored.
\<close>

theorem decrementStepModeCount_disables_live_breakpoint:
  "exampleRegisteredState =
     exampleState\<lparr>breakpointSites := Some [7 \<mapsto> \<lparr>siteOffset = 7\<rparr>]\<rparr> \<and>
   toggleBreakpointTrap 7 True exampleRegisteredState = Inr exampleLiveState \<and>
   hasBreakpointSite exampleLiveState 7 \<and> trapEnabled exampleLiveState 99 \<and>
   hasBreakpointTrapAtOffset exampleLiveState 7 \<and>
   \<not> hasBreakpointTrapAtOffset exampleLiveState 99 \<and>
   \<not> hasBreakpointSite exampleLiveState 99 \<and>
   incrementStepModeCount_times [exampleEnv] 0 exampleLiveState =
     Inr (True, exampleLiveSteppedState) \<and>
   decrementStepModeCount_times 1 0 exampleLiveSteppedState = Inr (True, exampleLostState) \<and>
   hasBreakpointSite exampleLostState 7 \<and> \<not> stepModeEnabled exampleLostState 0 \<and>
   \<not> trapEnabled exampleLostState 99 \<and>
   incrementStepModeCount_times [exampleEnv, exampleEnv] 0 exampleLiveState =
     Inr (True, exampleLiveSteppedState\<lparr>stepModeCounters := Some [0 \<mapsto> 2]\<rparr>) \<and>
   decrementStepModeCount_times 2 0
       (exampleLiveSteppedState\<lparr>stepModeCounters := Some [0 \<mapsto> 2]\<rparr>) =
     Inr (True, exampleLostState)"
  by (simp add: decrementStepModeCount_times_2 live_defs)

subsection \<open>Binary search\<close>

lemma BinarySearchIf_all_above:
  "low \<le> high \<Longrightarrow> \<forall>k. low \<le> k \<and> k < high \<longrightarrow> cmp (c ! k) > 0 \<Longrightarrow>
     BinarySearchIf c low high cmp = (False, high)"
proof (induction c low high cmp rule: BinarySearchIf.induct)
  case (1 c low high cmp)
  show ?case
  proof (cases "low < high")
    case False
    with "1.prems" show ?thesis by (subst BinarySearchIf.simps) simp
  next
    case True
    let ?m = "low + (high - low) div 2"
    have m: "low \<le> ?m" "?m < high" using True by auto
    then have pos: "cmp (c ! ?m) > 0" using "1.prems"(2) by blast
    have "BinarySearchIf c (?m + 1) high cmp = (False, high)"
      using "1.IH"(2) [OF True refl refl] pos m "1.prems"(2) by auto
    then show ?thesis using True pos by (subst BinarySearchIf.simps) (simp add: Let_def)
  qed
qed

lemma BinarySearchIf_bounds:
  "low \<le> high \<Longrightarrow> low \<le> snd (BinarySearchIf c low high cmp) \<and>
     snd (BinarySearchIf c low high cmp) \<le> high"
proof (induction c low high cmp rule: BinarySearchIf.induct)
  case (1 c low high cmp)
  show ?case
  proof (cases "low < high")
    case False
    with "1.prems" show ?thesis by (subst (1 2) BinarySearchIf.simps) simp
  next
    case True
    let ?m = "low + (high - low) div 2"
    have m: "low \<le> ?m" "?m < high" using True by auto
    consider "cmp (c ! ?m) = 0" | "cmp (c ! ?m) < 0" | "cmp (c ! ?m) > 0" by linarith
    then show ?thesis
    proof cases
      case 1
      then show ?thesis using True m by (subst (1 2) BinarySearchIf.simps) (simp add: Let_def)
    next
      case 2
      then have "low \<le> snd (BinarySearchIf c low ?m cmp) \<and>
          snd (BinarySearchIf c low ?m cmp) \<le> ?m"
        using "1.IH"(1) [OF True refl refl] m by auto
      then show ?thesis using True 2 m
        by (subst (1 2) BinarySearchIf.simps) (simp add: Let_def)
    next
      case 3
      then have "?m + 1 \<le> snd (BinarySearchIf c (?m + 1) high cmp) \<and>
          snd (BinarySearchIf c (?m + 1) high cmp) \<le> high"
        using "1.IH"(2) [OF True refl refl] m by auto
      then show ?thesis using True 3 m
        by (subst (1 2) BinarySearchIf.simps) (simp add: Let_def)
    qed
  qed
qed

subsection \<open>The index sorted by offset\<close>

lemma sortedByOffsetIndices_props:
  "length (sortedByOffsetIndices locs) = length locs"
  "set (sortedByOffsetIndices locs) = {0..<length locs}"
  "sorted (map (\<lambda>i. offset (locs ! i)) (sortedByOffsetIndices locs))"
  by (simp_all add: sortedByOffsetIndices_def MergeSort_def)

text \<open>
  C4. Let the expression locations be non-empty, and the index sorted by offset either
  built already or still to be built with the allocation succeeding. Then
  \<open>searchLineByOffset\<close> returns true with an index within the bounds of the expression
  locations, whatever the offset; and for an offset strictly greater than every recorded
  offset that index is the last entry of the index sorted by offset, an entry no recorded
  offset exceeds.
\<close>

theorem searchLineByOffset_clamp:
  assumes "exprlocs sm \<noteq> []"
    and "(sortedByOffsetExprLocIndices sm = None \<and> vectorResizeOk env) \<or>
         sortedByOffsetExprLocIndices sm = Some (sortedByOffsetIndices (exprlocs sm))"
  shows "\<exists>i. searchLineByOffset env off sm =
             Inr (Some i, sm\<lparr>sortedByOffsetExprLocIndices :=
                               Some (sortedByOffsetIndices (exprlocs sm))\<rparr>) \<and>
           i < length (exprlocs sm) \<and>
           ((\<forall>e \<in> set (exprlocs sm). offset e < off) \<longrightarrow>
              i = last (sortedByOffsetIndices (exprlocs sm)) \<and>
              (\<forall>e \<in> set (exprlocs sm). offset e \<le> offset (exprlocs sm ! i)))"
proof -
  let ?locs = "exprlocs sm"
  let ?n = "length ?locs"
  let ?ix = "sortedByOffsetIndices ?locs"
  let ?m = "snd (BinarySearchIf ?ix 0 ?n (lookupFn ?locs off))"
  let ?m1 = "if ?m \<ge> ?n then ?n - 1 else ?m"
  have n: "0 < ?n" using assms(1) by simp
  have len: "length ?ix = ?n" by (rule sortedByOffsetIndices_props)
  have ix: "(case sortedByOffsetExprLocIndices sm of None \<Rightarrow> ?ix | Some ix \<Rightarrow> ix) = ?ix"
    using assms(2) by auto
  have ok: "\<not> (sortedByOffsetExprLocIndices sm = None \<and> \<not> vectorResizeOk env)"
    using assms(2) by auto
  have m1: "?m1 < ?n" using n by auto
  have run: "searchLineByOffset env off sm =
      Inr (Some (?ix ! ?m1), sm\<lparr>sortedByOffsetExprLocIndices := Some ?ix\<rparr>)"
    using assms(1) ok m1 unfolding searchLineByOffset_def Let_def ix len by simp
  have "?ix ! ?m1 \<in> set ?ix" using m1 len by (intro nth_mem) simp
  then have bound: "?ix ! ?m1 < ?n" by (simp add: sortedByOffsetIndices_props)
  have clamp: "?ix ! ?m1 = last ?ix \<and> (\<forall>e \<in> set ?locs. offset e \<le> offset (?locs ! (?ix ! ?m1)))"
    if above: "\<forall>e \<in> set ?locs. offset e < off"
  proof -
    have "\<forall>k. 0 \<le> k \<and> k < ?n \<longrightarrow> lookupFn ?locs off (?ix ! k) > 0"
    proof (intro allI impI)
      fix k assume k: "0 \<le> k \<and> k < ?n"
      then have "?ix ! k \<in> set ?ix" using len by (intro nth_mem) simp
      then have "?ix ! k < ?n" by (simp add: sortedByOffsetIndices_props)
      then have "offset (?locs ! (?ix ! k)) < off" using above by simp
      then show "lookupFn ?locs off (?ix ! k) > 0"
        by (auto simp: lookupFn_def Let_def)
    qed
    then have "BinarySearchIf ?ix 0 ?n (lookupFn ?locs off) = (False, ?n)"
      by (intro BinarySearchIf_all_above) simp_all
    then have m1n: "?m1 = ?n - 1" by simp
    have ne: "?ix \<noteq> []" using len n by auto
    have l: "?ix ! ?m1 = last ?ix"
      unfolding m1n using ne len by (simp add: last_conv_nth)
    have "offset e \<le> offset (?locs ! (last ?ix))" if e: "e \<in> set ?locs" for e
    proof -
      from e obtain j where j: "j < ?n" "e = ?locs ! j" by (auto simp: in_set_conv_nth)
      then have "j \<in> set ?ix" by (simp add: sortedByOffsetIndices_props)
      then obtain p where p: "p < length ?ix" "?ix ! p = j" by (auto simp: in_set_conv_nth)
      let ?keys = "map (\<lambda>i. offset (?locs ! i)) ?ix"
      have "sorted ?keys" by (rule sortedByOffsetIndices_props)
      moreover have "p \<le> length ?ix - 1" "length ?ix - 1 < length ?keys"
        using p ne by auto
      ultimately have "?keys ! p \<le> ?keys ! (length ?ix - 1)"
        by (rule sorted_nth_mono)
      then show ?thesis using p j ne by (simp add: last_conv_nth)
    qed
    with l show ?thesis by simp
  qed
  from run bound clamp show ?thesis by blast
qed

lemma exampleIndices: "sortedByOffsetIndices exampleExprLocs = [1, 0, 2]"
  by (simp add: sortedByOffsetIndices_def MergeSort_def exampleExprLocs_def upt_rec)

theorem searchLineByOffset_clamp_witness:
  "searchLineByOffset exampleEnv 100 exampleSourceMap =
     Inr (Some 2, exampleSourceMap\<lparr>sortedByOffsetExprLocIndices := Some [1, 0, 2]\<rparr>) \<and>
   (2 :: nat) < length (exprlocs exampleSourceMap) \<and>
   offset (exprlocs exampleSourceMap ! 2) = 30"
proof -
  have h1: "exprlocs exampleSourceMap \<noteq> []"
    by (simp add: exampleSourceMap_def exampleExprLocs_def)
  have h2: "(sortedByOffsetExprLocIndices exampleSourceMap = None \<and> vectorResizeOk exampleEnv) \<or>
       sortedByOffsetExprLocIndices exampleSourceMap =
         Some (sortedByOffsetIndices (exprlocs exampleSourceMap))"
    by (simp add: exampleSourceMap_def exampleEnv_def)
  have above: "\<forall>e \<in> set (exprlocs exampleSourceMap). offset e < 100"
    by (simp add: exampleSourceMap_def exampleExprLocs_def)
  have ix: "sortedByOffsetIndices (exprlocs exampleSourceMap) = [1, 0, 2]"
    by (simp add: exampleSourceMap_def exampleIndices)
  from searchLineByOffset_clamp [OF h1 h2, of 100] above obtain i where
    "searchLineByOffset exampleEnv 100 exampleSourceMap =
       Inr (Some i, exampleSourceMap\<lparr>sortedByOffsetExprLocIndices :=
              Some (sortedByOffsetIndices (exprlocs exampleSourceMap))\<rparr>)"
    and "i < length (exprlocs exampleSourceMap)"
    and "i = last (sortedByOffsetIndices (exprlocs exampleSourceMap))"
    by blast
  then show ?thesis
    unfolding ix by (simp add: exampleSourceMap_def exampleExprLocs_def)
qed

subsection \<open>Offsets of a line\<close>

lemma BinarySearchIf_found:
  "BinarySearchIf c low high cmp = (True, m) \<Longrightarrow> low \<le> m \<and> m < high \<and> cmp (c ! m) = 0"
proof (induction c low high cmp rule: BinarySearchIf.induct)
  case (1 c low high cmp)
  show ?case
  proof (cases "low < high")
    case False
    with "1.prems" show ?thesis by (subst (asm) BinarySearchIf.simps) simp
  next
    case True
    let ?m = "low + (high - low) div 2"
    have m: "low \<le> ?m" "?m < high" using True by auto
    consider "cmp (c ! ?m) = 0" | "cmp (c ! ?m) < 0" | "cmp (c ! ?m) > 0" by linarith
    then show ?thesis
    proof cases
      case 1
      then have "m = ?m" using "1.prems" True
        by (subst (asm) BinarySearchIf.simps) (simp add: Let_def)
      then show ?thesis using 1 m by simp
    next
      case 2
      then have "BinarySearchIf c low ?m cmp = (True, m)" using "1.prems" True
        by (subst (asm) BinarySearchIf.simps) (simp add: Let_def)
      then have "low \<le> m \<and> m < ?m \<and> cmp (c ! m) = 0"
        using "1.IH"(1) [OF True refl refl] 2 by simp
      then show ?thesis using m by simp
    next
      case 3
      then have "BinarySearchIf c (?m + 1) high cmp = (True, m)" using "1.prems" True
        by (subst (asm) BinarySearchIf.simps) (simp add: Let_def)
      then have "?m + 1 \<le> m \<and> m < high \<and> cmp (c ! m) = 0"
        using "1.IH"(2) [OF True refl refl] 3 by simp
      then show ?thesis using m by simp
    qed
  qed
qed

lemma BinarySearchIf_not_found:
  fixes key :: "'a \<Rightarrow> 'k::linorder"
  shows "sorted (map key c) \<Longrightarrow> high \<le> length c \<Longrightarrow>
     \<forall>e. cmp e = (if t = key e then 0 else if t < key e then - 1 else 1) \<Longrightarrow>
     BinarySearchIf c low high cmp = (False, m) \<Longrightarrow>
     \<forall>k. low \<le> k \<and> k < high \<longrightarrow> key (c ! k) \<noteq> t"
proof (induction c low high cmp arbitrary: m rule: BinarySearchIf.induct)
  case (1 c low high cmp)
  note srt = "1.prems"(1) and len = "1.prems"(2) and cmp = "1.prems"(3) and run = "1.prems"(4)
  show ?case
  proof (cases "low < high")
    case False
    show ?thesis
    proof (intro allI impI)
      fix k assume "low \<le> k \<and> k < high"
      with False have False by linarith
      then show "key (c ! k) \<noteq> t" ..
    qed
  next
    case True
    let ?m = "low + (high - low) div 2"
    have m: "low \<le> ?m" "?m < high" using True by auto
    have mono: "key (c ! i) \<le> key (c ! j)" if "i \<le> j" "j < high" for i j
    proof -
      have "map key c ! i \<le> map key c ! j"
        using srt that len by (intro sorted_nth_mono) simp_all
      then show ?thesis using that len by simp
    qed
    consider "t = key (c ! ?m)" | "t < key (c ! ?m)" | "key (c ! ?m) < t" by fastforce
    then show ?thesis
    proof cases
      case 1
      then have "cmp (c ! ?m) = 0" using cmp by simp
      then have False using run True
        by (subst (asm) BinarySearchIf.simps) (simp add: Let_def)
      then show ?thesis ..
    next
      case 2
      then have r: "cmp (c ! ?m) < 0" "cmp (c ! ?m) \<noteq> 0" using cmp by auto
      then have "BinarySearchIf c low ?m cmp = (False, m)" using run True
        by (subst (asm) BinarySearchIf.simps) (simp add: Let_def)
      then have ih: "\<forall>k. low \<le> k \<and> k < ?m \<longrightarrow> key (c ! k) \<noteq> t"
        using "1.IH"(1) [OF True refl refl _ _ srt _ cmp] r m len by simp
      show ?thesis
      proof (intro allI impI)
        fix k assume k: "low \<le> k \<and> k < high"
        show "key (c ! k) \<noteq> t"
        proof (cases "k < ?m")
          case True
          with ih k show ?thesis by simp
        next
          case False
          then have "key (c ! ?m) \<le> key (c ! k)" using k by (intro mono) simp_all
          with 2 show ?thesis by auto
        qed
      qed
    next
      case 3
      then have r: "\<not> cmp (c ! ?m) < 0" "cmp (c ! ?m) \<noteq> 0" using cmp by auto
      then have "BinarySearchIf c (?m + 1) high cmp = (False, m)" using run True
        by (subst (asm) BinarySearchIf.simps) (simp add: Let_def)
      then have ih: "\<forall>k. ?m + 1 \<le> k \<and> k < high \<longrightarrow> key (c ! k) \<noteq> t"
        using "1.IH"(2) [OF True refl refl _ _ srt _ cmp] r m len by simp
      show ?thesis
      proof (intro allI impI)
        fix k assume k: "low \<le> k \<and> k < high"
        show "key (c ! k) \<noteq> t"
        proof (cases "?m < k")
          case True
          with ih k show ?thesis by simp
        next
          case False
          then have "key (c ! k) \<le> key (c ! ?m)" using m by (intro mono) simp_all
          with 3 show ?thesis by auto
        qed
      qed
    qed
  qed
qed

lemma rewindToFirst_props:
  "rewindToFirst locs line m \<le> m \<and>
   (\<forall>k. rewindToFirst locs line m \<le> k \<and> k < m \<longrightarrow> unat (lineno (locs ! k)) = line) \<and>
   (rewindToFirst locs line m = 0 \<or>
    unat (lineno (locs ! (rewindToFirst locs line m - 1))) \<noteq> line)"
proof (induction m)
  case 0
  then show ?case by simp
next
  case (Suc m)
  show ?case
  proof (cases "unat (lineno (locs ! m)) = line")
    case True
    then have e: "rewindToFirst locs line (Suc m) = rewindToFirst locs line m" by simp
    show ?thesis unfolding e using Suc True
      by (auto simp: less_Suc_eq)
  next
    case False
    then show ?thesis by simp
  qed
qed

lemma appendLineOffsets_None:
  "appendLineOffsets locs line i None offsets =
     (True, offsets @ map offset (takeWhile (\<lambda>e. unat (lineno e) = line) (drop i locs)))"
proof (induction locs line i "None :: nat option" offsets rule: appendLineOffsets.induct)
  case (1 locs line i offsets)
  show ?case
  proof (cases "i < length locs")
    case False
    then show ?thesis by (subst appendLineOffsets.simps) simp
  next
    case True
    then have d: "drop i locs = locs ! i # drop (Suc i) locs"
      by (simp add: Cons_nth_drop_Suc)
    show ?thesis
    proof (cases "unat (lineno (locs ! i)) = line")
      case False
      then show ?thesis unfolding d by (subst appendLineOffsets.simps) simp
    next
      case l: True
      have "appendLineOffsets locs line (Suc i) None (offsets @ [offset (locs ! i)]) =
          (True, (offsets @ [offset (locs ! i)]) @
             map offset (takeWhile (\<lambda>e. unat (lineno e) = line) (drop (Suc i) locs)))"
        using "1.hyps" True l by simp
      then show ?thesis unfolding d using True l by (subst appendLineOffsets.simps) simp
    qed
  qed
qed

lemma appendLineOffsets_no_line:
  "\<not> (i < length locs \<and> unat (lineno (locs ! i)) = line) \<Longrightarrow>
     appendLineOffsets locs line i limit offsets = (True, offsets)"
  by (subst appendLineOffsets.simps) auto

lemma sorted_filter_key:
  fixes key :: "'a \<Rightarrow> 'k::linorder"
  shows "sorted (map key xs) \<Longrightarrow>
     filter (\<lambda>e. key e = t) xs = takeWhile (\<lambda>e. key e = t) (dropWhile (\<lambda>e. key e < t) xs)"
proof (induction xs)
  case Nil
  then show ?case by simp
next
  case (Cons x xs)
  then have ih: "filter (\<lambda>e. key e = t) xs =
      takeWhile (\<lambda>e. key e = t) (dropWhile (\<lambda>e. key e < t) xs)"
    and ge: "\<forall>y \<in> set xs. key x \<le> key y"
    by simp_all
  show ?case
  proof (cases "key x < t")
    case True
    then show ?thesis using ih by simp
  next
    case False
    then have dw: "dropWhile (\<lambda>e. key e < t) xs = xs"
      using ge by (cases xs) (auto simp: not_less dest: order_trans)
    show ?thesis
    proof (cases "key x = t")
      case True
      then show ?thesis using False ih dw by simp
    next
      case n: False
      then have "\<forall>y \<in> set xs. key y \<noteq> t" using ge False by fastforce
      then have "filter (\<lambda>e. key e = t) xs = []" by (simp add: filter_empty_conv)
      then show ?thesis using False n by simp
    qed
  qed
qed

lemma linesSorted_sorted:
  "linesSorted lastLineno locs \<Longrightarrow>
     sorted (map lineno locs) \<and> (\<forall>e \<in> set locs. lastLineno \<le> lineno e)"
proof (induction locs arbitrary: lastLineno)
  case Nil
  then show ?case by simp
next
  case (Cons loc rest)
  then have l: "lastLineno \<le> lineno loc" and r: "linesSorted (lineno loc) rest"
    by (auto split: if_splits)
  from Cons.IH [OF r] l show ?case by auto
qed

lemma createText_built:
  assumes "createText env s = Inr (Some text, s')" "maybeSourceMap s' = Some sm"
    "maybeSourceMap s = None"
  shows "sorted (map lineno (exprlocs sm))"
proof -
  from assms have "linesSorted 0 (exprlocs sm)"
    by (auto simp: createText_def Let_def finishString_def
          split: option.splits if_splits prod.splits)
  then show ?thesis using linesSorted_sorted by blast
qed

lemma ensureSourceMap_built:
  assumes "ensureSourceMap env s = Inr (True, s')" "maybeSourceMap s' = Some sm"
    "maybeSourceMap s = None"
  shows "sorted (map lineno (exprlocs sm))"
proof -
  from assms obtain str where "createText env s = Inr (Some str, s')"
    by (auto simp: ensureSourceMap_def split: if_splits sum.splits)
  then show ?thesis using assms(2,3) by (rule createText_built)
qed

text \<open>What \<open>getLineOffsets\<close> appends once a source map with sorted lines is there.\<close>

lemma getLineOffsets_sorted:
  assumes de: "debugEnabled (metadata s)" and sm: "maybeSourceMap s = Some sm"
    and srt: "sorted (map lineno (exprlocs sm))"
  shows "getLineOffsets env line offsets s =
     (case appendLineOffsets (exprlocs sm) line
             (length (takeWhile (\<lambda>e. unat (lineno e) < line) (exprlocs sm)))
             (offsetsAppendLimit env) offsets of
        (ok, offsets') \<Rightarrow> Inr (ok, offsets', s))"
    and "filter (\<lambda>e. unat (lineno e) = line) (exprlocs sm) =
      takeWhile (\<lambda>e. unat (lineno e) = line)
        (drop (length (takeWhile (\<lambda>e. unat (lineno e) < line) (exprlocs sm))) (exprlocs sm))"
proof -
  let ?locs = "exprlocs sm"
  let ?P = "\<lambda>e. unat (lineno e) = line"
  let ?Q = "\<lambda>e. unat (lineno e) < line"
  let ?i = "length (takeWhile ?Q ?locs)"
  have srt': "sorted (map (\<lambda>e. unat (lineno e)) ?locs)"
    unfolding sorted_iff_nth_mono
  proof (intro allI impI)
    fix a b assume ab: "a \<le> b" "b < length (map (\<lambda>e. unat (lineno e)) ?locs)"
    then have "map lineno ?locs ! a \<le> map lineno ?locs ! b"
      using srt by (intro sorted_nth_mono) simp_all
    then show "map (\<lambda>e. unat (lineno e)) ?locs ! a \<le> map (\<lambda>e. unat (lineno e)) ?locs ! b"
      using ab by (simp add: word_le_nat_alt)
  qed
  show flt: "filter ?P ?locs = takeWhile ?P (drop ?i ?locs)"
    using sorted_filter_key [OF srt', of line] by (simp add: dropWhile_eq_drop)
  have ens: "ensureSourceMap env s = Inr (True, s)"
    using sm by (simp add: ensureSourceMap_def)
  obtain found match where bs:
    "BinarySearchIf ?locs 0 (length ?locs) (LineComparator (of_nat line)) = (found, match)"
    by (cases "BinarySearchIf ?locs 0 (length ?locs) (LineComparator (of_nat line))") auto
  have body: "getLineOffsets env line offsets s =
      (if \<not> found then Inr (True, offsets, s)
       else case appendLineOffsets ?locs line (rewindToFirst ?locs line match)
                   (offsetsAppendLimit env) offsets of
              (ok, offsets') \<Rightarrow> Inr (ok, offsets', s))"
    using de sm ens bs by (simp add: getLineOffsets_def)
  show "getLineOffsets env line offsets s =
     (case appendLineOffsets ?locs line ?i (offsetsAppendLimit env) offsets of
        (ok, offsets') \<Rightarrow> Inr (ok, offsets', s))"
  proof (cases "\<exists>e \<in> set ?locs. ?P e")
    case False
    then have none: "\<forall>e \<in> set ?locs. \<not> ?P e" by simp
    have a: "appendLineOffsets ?locs line j (offsetsAppendLimit env) offsets = (True, offsets)"
      for j
      using none nth_mem [of j ?locs] by (intro appendLineOffsets_no_line) blast
    show ?thesis unfolding body a by simp
  next
    case True
    then obtain e0 where e0: "e0 \<in> set ?locs" "?P e0" by blast
    then have small: "line < 2 ^ 32"
      using unsigned_less [of "lineno e0", where 'a = nat] by simp
    then have rt: "unat (of_nat line :: u32) = line"
      by (simp add: unat_of_nat)
    have P: "?P e \<longleftrightarrow> lineno e = of_nat line" for e
    proof
      assume "?P e"
      then have "(of_nat (unat (lineno e)) :: u32) = of_nat line" by simp
      then show "lineno e = of_nat line" by simp
    next
      assume "lineno e = of_nat line"
      then show "?P e" using rt by simp
    qed
    have fnd: found
    proof (rule ccontr)
      assume "\<not> found"
      then have "BinarySearchIf ?locs 0 (length ?locs) (LineComparator (of_nat line)) =
          (False, match)"
        using bs by simp
      then have "\<forall>k. 0 \<le> k \<and> k < length ?locs \<longrightarrow> lineno (?locs ! k) \<noteq> of_nat line"
        by (intro BinarySearchIf_not_found [OF srt, where t = "of_nat line"])
          (simp_all add: LineComparator_def)
      with e0 P show False by (auto simp: in_set_conv_nth)
    qed
    then have "BinarySearchIf ?locs 0 (length ?locs) (LineComparator (of_nat line)) =
        (True, match)"
      using bs by simp
    from BinarySearchIf_found [OF this]
    have mt: "match < length ?locs" "lineno (?locs ! match) = of_nat line"
      by (auto simp: LineComparator_def split: if_splits)
    let ?r = "rewindToFirst ?locs line match"
    note rw = rewindToFirst_props [of ?locs line match]
    have mono: "unat (lineno (?locs ! a)) \<le> unat (lineno (?locs ! b))"
      if "a \<le> b" "b < length ?locs" for a b
      using sorted_nth_mono [OF srt', of a b] that by simp
    have before: "?Q (?locs ! k)" if k: "k < ?r" for k
    proof -
      have r0: "?r \<noteq> 0" using k by simp
      with rw have ne: "unat (lineno (?locs ! (?r - 1))) \<noteq> line" by blast
      have "unat (lineno (?locs ! (?r - 1))) \<le> unat (lineno (?locs ! match))"
        using rw mt r0 by (intro mono) auto
      moreover have "unat (lineno (?locs ! match)) = line" using mt rt by simp
      ultimately have "unat (lineno (?locs ! (?r - 1))) < line" using ne by simp
      moreover have "unat (lineno (?locs ! k)) \<le> unat (lineno (?locs ! (?r - 1)))"
        using rw mt k by (intro mono) auto
      ultimately show ?thesis by simp
    qed
    have at: "\<not> ?Q (?locs ! ?r)"
    proof (cases "?r = match")
      case True
      then show ?thesis using mt rt by simp
    next
      case False
      then have "?r < match" using rw by simp
      with rw have "unat (lineno (?locs ! ?r)) = line" by blast
      then show ?thesis by simp
    qed
    have "takeWhile ?Q ?locs = take ?r ?locs"
      using before at rw mt by (intro takeWhile_eq_take_P_nth) auto
    then have "?i = ?r" using rw mt by simp
    then show ?thesis unfolding body using fnd by simp
  qed
qed

lemmas sourcemap_defs =
  createText_def ensureSourceMap_def getLineOffsets_def getOffsetLocation_def
  totalSourceLines_def searchLineByOffset_def newDebugState_def finishString_def
  LineComparator_def lookupFn_def TooBig_def BinarySearchIf.simps appendLineOffsets.simps
  exampleExprLocs_def exampleSourceMap_def exampleMappedState_def

text \<open>
  C5, as the claim states it, fails. The renderer of the example emits, on line 1, the
  expression at offset 10 before the one at offset 5. After the source map is built,
  \<open>getLineOffsets\<close> for line 1 appends 10 and then 5: the order of the expression
  locations, which is not ascending.
\<close>

theorem getLineOffsets_order_counterexample:
  "ensureSourceMap exampleEnv exampleState = Inr (True, exampleMappedState) \<and>
   getLineOffsets exampleEnv 1 [] exampleMappedState = Inr (True, [10, 5], exampleMappedState) \<and>
   \<not> sorted [10, 5 :: u32]"
  by (simp add: sourcemap_defs example_defs)

text \<open>
  C5, amended. Let a source map have been built successfully, and let debugging be
  enabled. Then \<open>getLineOffsets\<close> for a line, when no \<open>append\<close> fails, returns true having
  appended exactly the offsets of the expression locations whose line is that line, in
  the order of the expression locations; and when no expression location has that line
  it returns true having appended nothing, whether or not an \<open>append\<close> could fail. With
  debugging disabled it returns true and appends nothing.
\<close>

theorem getLineOffsets_appends:
  "(maybeSourceMap s0 = None \<and> ensureSourceMap env0 s0 = Inr (True, s1) \<and>
    maybeSourceMap s1 = Some sm1 \<and>
    debugEnabled (metadata s) \<and> maybeSourceMap s = Some sm \<and> exprlocs sm = exprlocs sm1 \<longrightarrow>
      (offsetsAppendLimit env = None \<longrightarrow>
         getLineOffsets env line offsets s =
           Inr (True,
                offsets @ map offset (filter (\<lambda>e. unat (lineno e) = line) (exprlocs sm)),
                s)) \<and>
      ((\<forall>e \<in> set (exprlocs sm). unat (lineno e) \<noteq> line) \<longrightarrow>
         getLineOffsets env line offsets s = Inr (True, offsets, s))) \<and>
   (\<not> debugEnabled (metadata t) \<longrightarrow> getLineOffsets env line offsets t = Inr (True, offsets, t))"
proof (intro conjI impI)
  assume h: "maybeSourceMap s0 = None \<and> ensureSourceMap env0 s0 = Inr (True, s1) \<and>
    maybeSourceMap s1 = Some sm1 \<and>
    debugEnabled (metadata s) \<and> maybeSourceMap s = Some sm \<and> exprlocs sm = exprlocs sm1"
  then have "sorted (map lineno (exprlocs sm1))"
    using ensureSourceMap_built [of env0 s0 s1 sm1] by blast
  then have srt: "sorted (map lineno (exprlocs sm))" using h by simp
  from h have de: "debugEnabled (metadata s)" and sm: "maybeSourceMap s = Some sm" by blast+
  note run = getLineOffsets_sorted [OF de sm srt]
  let ?P = "\<lambda>e. unat (lineno e) = line"
  let ?i = "length (takeWhile (\<lambda>e. unat (lineno e) < line) (exprlocs sm))"
  {
    assume "offsetsAppendLimit env = None"
    then show "getLineOffsets env line offsets s =
           Inr (True, offsets @ map offset (filter ?P (exprlocs sm)), s)"
      unfolding run(1) [of env line offsets] run(2) [of line]
      by (simp add: appendLineOffsets_None)
  }
  {
    assume none: "\<forall>e \<in> set (exprlocs sm). unat (lineno e) \<noteq> line"
    have "\<not> (?i < length (exprlocs sm) \<and> ?P (exprlocs sm ! ?i))"
      using none nth_mem [of ?i "exprlocs sm"] by blast
    then have "appendLineOffsets (exprlocs sm) line ?i (offsetsAppendLimit env) offsets =
        (True, offsets)"
      by (rule appendLineOffsets_no_line)
    then show "getLineOffsets env line offsets s = Inr (True, offsets, s)"
      unfolding run(1) [of env line offsets] by simp
  }
next
  assume "\<not> debugEnabled (metadata t)"
  then show "getLineOffsets env line offsets t = Inr (True, offsets, t)"
    by (simp add: getLineOffsets_def)
qed

theorem getLineOffsets_appends_witness:
  "getLineOffsets exampleEnv 1 [7] exampleMappedState = Inr (True, [7, 10, 5], exampleMappedState) \<and>
   getLineOffsets (exampleEnv\<lparr>offsetsAppendLimit := Some 0\<rparr>) 3 [7] exampleMappedState =
     Inr (True, [7], exampleMappedState) \<and>
   getLineOffsets exampleEnv 1 [7]
       (exampleMappedState\<lparr>metadata := exampleMetadata\<lparr>debugEnabled := False\<rparr>\<rparr>) =
     Inr (True, [7], exampleMappedState\<lparr>metadata := exampleMetadata\<lparr>debugEnabled := False\<rparr>\<rparr>)"
proof -
  let ?t = "exampleMappedState\<lparr>metadata := exampleMetadata\<lparr>debugEnabled := False\<rparr>\<rparr>"
  let ?env3 = "exampleEnv\<lparr>offsetsAppendLimit := Some 0\<rparr>"
  have build: "maybeSourceMap exampleState = None \<and>
      ensureSourceMap exampleEnv exampleState = Inr (True, exampleMappedState) \<and>
      maybeSourceMap exampleMappedState = Some exampleSourceMap \<and>
      debugEnabled (metadata exampleMappedState) \<and>
      maybeSourceMap exampleMappedState = Some exampleSourceMap \<and>
      exprlocs exampleSourceMap = exprlocs exampleSourceMap"
    by (simp add: sourcemap_defs example_defs)
  have lim: "offsetsAppendLimit exampleEnv = None"
    by (simp add: exampleEnv_def)
  have none3: "\<forall>e \<in> set (exprlocs exampleSourceMap). unat (lineno e) \<noteq> 3"
    by (simp add: exampleSourceMap_def exampleExprLocs_def)
  have off: "\<not> debugEnabled (metadata ?t)"
    by simp
  have flt: "map offset (filter (\<lambda>e. unat (lineno e) = 1) (exprlocs exampleSourceMap)) = [10, 5]"
    by (simp add: exampleSourceMap_def exampleExprLocs_def)
  note t1 = getLineOffsets_appends [of exampleState exampleEnv exampleMappedState
      exampleSourceMap exampleMappedState exampleSourceMap exampleEnv 1 "[7]" ?t]
  note t3 = getLineOffsets_appends [of exampleState exampleEnv exampleMappedState
      exampleSourceMap exampleMappedState exampleSourceMap ?env3 3 "[7]" ?t]
  from t1 build lim have "getLineOffsets exampleEnv 1 [7] exampleMappedState =
      Inr (True, [7] @ map offset (filter (\<lambda>e. unat (lineno e) = 1) (exprlocs exampleSourceMap)),
           exampleMappedState)"
    by blast
  then have a: "getLineOffsets exampleEnv 1 [7] exampleMappedState =
      Inr (True, [7, 10, 5], exampleMappedState)"
    unfolding flt by simp
  from t3 build none3 have b: "getLineOffsets ?env3 3 [7] exampleMappedState =
      Inr (True, [7], exampleMappedState)"
    by blast
  from t1 off have c: "getLineOffsets exampleEnv 1 [7] ?t = Inr (True, [7], ?t)"
    by blast
  from a b c show ?thesis by blast
qed

subsection \<open>What the operations leave of the bytecode and the source map\<close>

lemma createText_frame:
  assumes "createText env s = Inr (r, s')"
  shows "s' = s \<or> (\<exists>bytes sm. maybeBytecode s = Some bytes \<and> length bytes \<le> TooBig \<and>
           s' = s\<lparr>maybeSourceMap := Some sm\<rparr>)"
proof (cases "maybeBytecode s")
  case None
  then show ?thesis using assms by (simp add: createText_def split: if_splits)
next
  case (Some bytes)
  show ?thesis
  proof (cases "length bytes > TooBig \<or> \<not> newSourceMapOk env")
    case True
    then show ?thesis using assms Some by (auto simp: createText_def split: if_splits)
  next
    case False
    obtain ok str locs lines where b: "BinaryToText env bytes = (ok, str, locs, lines)"
      by (cases "BinaryToText env bytes") auto
    have "s' = s\<lparr>maybeSourceMap :=
        Some \<lparr>exprlocs = locs, sortedByOffsetExprLocIndices = None, totalLines = lines\<rparr>\<rparr>"
      using assms Some False b by (simp add: createText_def Let_def split: if_splits)
    then show ?thesis using Some False by auto
  qed
qed

lemma ensureSourceMap_frame:
  assumes "ensureSourceMap env s = Inr (r, s')"
  shows "s' = s \<or> (\<exists>bytes sm. maybeBytecode s = Some bytes \<and> length bytes \<le> TooBig \<and>
           s' = s\<lparr>maybeSourceMap := Some sm\<rparr>)"
proof (cases "maybeSourceMap s \<noteq> None \<or> maybeBytecode s = None")
  case True
  then show ?thesis using assms by (simp add: ensureSourceMap_def)
next
  case False
  then obtain r' where "createText env s = Inr (r', s')"
    using assms by (auto simp: ensureSourceMap_def split: sum.splits)
  then show ?thesis by (rule createText_frame)
qed

lemma getLineOffsets_state:
  assumes "getLineOffsets env line offsets s = Inr (r, offsets', s')"
  shows "s' = s \<or> (\<exists>ok. ensureSourceMap env s = Inr (ok, s'))"
proof (cases "debugEnabled (metadata s)")
  case False
  then show ?thesis using assms by (simp add: getLineOffsets_def)
next
  case True
  show ?thesis
  proof (cases "ensureSourceMap env s")
    case (Inl e)
    then show ?thesis using assms True by (simp add: getLineOffsets_def)
  next
    case (Inr p)
    obtain ok s1 where p: "p = (ok, s1)" by (cases p)
    have "s' = s1"
      using assms True Inr unfolding p getLineOffsets_def
      by (simp split: if_splits option.splits prod.splits)
    then show ?thesis using Inr p by simp
  qed
qed

lemma getLineOffsets_frame:
  assumes "getLineOffsets env line offsets s = Inr (r, offsets', s')"
  shows "s' = s \<or> (\<exists>bytes sm. maybeBytecode s = Some bytes \<and> length bytes \<le> TooBig \<and>
           s' = s\<lparr>maybeSourceMap := Some sm\<rparr>)"
  using getLineOffsets_state [OF assms] ensureSourceMap_frame by blast

lemma totalSourceLines_frame:
  assumes "totalSourceLines env s = Inr (r, n, s')"
  shows "s' = s \<or> (\<exists>bytes sm. maybeBytecode s = Some bytes \<and> length bytes \<le> TooBig \<and>
           s' = s\<lparr>maybeSourceMap := Some sm\<rparr>)"
proof (cases "debugEnabled (metadata s)")
  case False
  then show ?thesis using assms by (simp add: totalSourceLines_def)
next
  case True
  show ?thesis
  proof (cases "ensureSourceMap env s")
    case (Inl e)
    then show ?thesis using assms True by (simp add: totalSourceLines_def)
  next
    case (Inr p)
    obtain ok s1 where p: "p = (ok, s1)" by (cases p)
    have "s' = s1"
      using assms True Inr unfolding p totalSourceLines_def
      by (simp split: if_splits option.splits)
    then show ?thesis using Inr p ensureSourceMap_frame by blast
  qed
qed

lemma searchLineByOffset_exprlocs:
  "searchLineByOffset env off sm = Inr (r, sm1) \<Longrightarrow> exprlocs sm1 = exprlocs sm"
  by (auto simp: searchLineByOffset_def Let_def split: if_splits)

lemma getOffsetLocation_frame:
  assumes "getOffsetLocation env off s = Inr (r, found, position, s')"
  shows "maybeBytecode s' = maybeBytecode s \<and> metadata s' = metadata s \<and>
     (maybeSourceMap s' \<noteq> None \<longrightarrow> maybeSourceMap s \<noteq> None \<or>
        (\<exists>bytes. maybeBytecode s = Some bytes \<and> length bytes \<le> TooBig))"
proof (cases "debugEnabled (metadata s)")
  case False
  then show ?thesis using assms by (simp add: getOffsetLocation_def)
next
  case True
  show ?thesis
  proof (cases "ensureSourceMap env s")
    case (Inl e)
    then show ?thesis using assms True by (simp add: getOffsetLocation_def)
  next
    case (Inr p)
    obtain ok s1 where p: "p = (ok, s1)" by (cases p)
    note e = Inr [unfolded p]
    have s1: "maybeBytecode s1 = maybeBytecode s \<and> metadata s1 = metadata s \<and>
       (maybeSourceMap s1 \<noteq> None \<longrightarrow> maybeSourceMap s \<noteq> None \<or>
          (\<exists>bytes. maybeBytecode s = Some bytes \<and> length bytes \<le> TooBig))"
      using ensureSourceMap_frame [OF e] by auto
    have "s' = s1 \<or> (\<exists>sm. s' = s1\<lparr>maybeSourceMap := Some sm\<rparr> \<and> maybeSourceMap s1 \<noteq> None)"
    proof (cases "\<not> ok \<or> maybeSourceMap s1 = None")
      case True
      then have "s' = s1" using assms \<open>debugEnabled (metadata s)\<close> e
        by (cases ok; cases "maybeSourceMap s1") (simp_all add: getOffsetLocation_def)
      then show ?thesis by simp
    next
      case False
      then obtain sm where sm: "maybeSourceMap s1 = Some sm" and ok: ok by auto
      show ?thesis
      proof (cases "exprlocs sm = []")
        case True
        then show ?thesis using assms \<open>debugEnabled (metadata s)\<close> e sm ok
          by (simp add: getOffsetLocation_def)
      next
        case ne: False
        show ?thesis
        proof (cases "searchLineByOffset env off sm")
          case (Inl x)
          then show ?thesis using assms \<open>debugEnabled (metadata s)\<close> e sm ok ne
            by (simp add: getOffsetLocation_def)
        next
          case (Inr q)
          obtain res sm1 where q: "q = (res, sm1)" by (cases q)
          have "s' = s1\<lparr>maybeSourceMap := Some sm1\<rparr>"
            using assms \<open>debugEnabled (metadata s)\<close> e sm ok ne Inr
            unfolding q getOffsetLocation_def
            by (simp add: Let_def split: option.splits if_splits)
          then show ?thesis using sm by auto
        qed
      qed
    qed
    with s1 show ?thesis by auto
  qed
qed

lemma incrementStepModeCount_frame:
  assumes "incrementStepModeCount env f s = Inr (ok, s')"
  shows "maybeBytecode s' = maybeBytecode s \<and> maybeSourceMap s' = maybeSourceMap s"
  using assms
  by (auto simp: incrementStepModeCount_def Let_def
        split: if_splits sum.splits option.splits dest!: incrementStepModeCount_sites_Inr)

lemma decrementStepModeCount_frame:
  assumes "decrementStepModeCount f s = Inr (ok, s')"
  shows "maybeBytecode s' = maybeBytecode s \<and> maybeSourceMap s' = maybeSourceMap s"
  using assms
  by (auto simp: decrementStepModeCount_def Let_def
        split: if_splits sum.splits option.splits dest!: decrementStepModeCount_sites_Inr)

lemma toggleBreakpointTrap_frame:
  assumes "toggleBreakpointTrap off enabled s = Inr s'"
  shows "maybeBytecode s' = maybeBytecode s \<and> maybeSourceMap s' = maybeSourceMap s"
  using assms
  by (auto simp: toggleBreakpointTrap_def Let_def
        split: if_splits option.splits dest!: toggleDebugTrap_Inr)

lemma getOrCreateBreakpointSite_frame:
  assumes "getOrCreateBreakpointSite env off s = (site, s')"
  shows "maybeBytecode s' = maybeBytecode s \<and> maybeSourceMap s' = maybeSourceMap s"
  using assms
  by (auto simp: getOrCreateBreakpointSite_def Let_def split: if_splits option.splits)

lemma destroyBreakpointSite_frame:
  assumes "destroyBreakpointSite off s = Inr s'"
  shows "maybeBytecode s' = maybeBytecode s \<and> maybeSourceMap s' = maybeSourceMap s"
  using assms
  by (auto simp: destroyBreakpointSite_def split: option.splits)

lemma adjustEnterAndLeaveFrameTrapsState_frame:
  assumes "adjustEnterAndLeaveFrameTrapsState enabled s = Inr s'"
  shows "maybeBytecode s' = maybeBytecode s \<and> maybeSourceMap s' = maybeSourceMap s"
  using assms
  by (auto simp: adjustEnterAndLeaveFrameTrapsState_def Let_def
        split: if_splits dest!: adjustEnterAndLeaveFrameTrapsState_sites_Inr)

text \<open>In a reachable state a source map comes with bytecode that is not too big.\<close>

lemma reachable_sourceMap:
  "reachable s \<Longrightarrow> maybeSourceMap s \<noteq> None \<Longrightarrow>
     \<exists>bytes. maybeBytecode s = Some bytes \<and> length bytes \<le> TooBig"
proof (induction rule: reachable.induct)
  case (constructed segment md bytecode s)
  then show ?case by (auto simp: newDebugState_def split: if_splits)
next
  case (after_createText s env str s')
  from createText_frame [OF after_createText.hyps(2)] after_createText.IH after_createText.prems
  show ?case by auto
next
  case (after_ensureSourceMap s env ok s')
  from ensureSourceMap_frame [OF after_ensureSourceMap.hyps(2)]
    after_ensureSourceMap.IH after_ensureSourceMap.prems
  show ?case by auto
next
  case (after_getLineOffsets s env line offsets ok offsets' s')
  from getLineOffsets_frame [OF after_getLineOffsets.hyps(2)]
    after_getLineOffsets.IH after_getLineOffsets.prems
  show ?case by auto
next
  case (after_getOffsetLocation s env off ok found position s')
  from getOffsetLocation_frame [OF after_getOffsetLocation.hyps(2)]
    after_getOffsetLocation.IH after_getOffsetLocation.prems
  show ?case by auto
next
  case (after_totalSourceLines s env ok count s')
  from totalSourceLines_frame [OF after_totalSourceLines.hyps(2)]
    after_totalSourceLines.IH after_totalSourceLines.prems
  show ?case by auto
next
  case (after_incrementStepModeCount s env f ok s')
  from incrementStepModeCount_frame [OF after_incrementStepModeCount.hyps(2)]
    after_incrementStepModeCount.IH after_incrementStepModeCount.prems
  show ?case by auto
next
  case (after_decrementStepModeCount s f ok s')
  from decrementStepModeCount_frame [OF after_decrementStepModeCount.hyps(2)]
    after_decrementStepModeCount.IH after_decrementStepModeCount.prems
  show ?case by auto
next
  case (after_toggleBreakpointTrap s off enabled s')
  from toggleBreakpointTrap_frame [OF after_toggleBreakpointTrap.hyps(2)]
    after_toggleBreakpointTrap.IH after_toggleBreakpointTrap.prems
  show ?case by auto
next
  case (after_getOrCreateBreakpointSite s env off site s')
  from getOrCreateBreakpointSite_frame [OF after_getOrCreateBreakpointSite.hyps(2)]
    after_getOrCreateBreakpointSite.IH after_getOrCreateBreakpointSite.prems
  show ?case by auto
next
  case (after_destroyBreakpointSite s off s')
  from destroyBreakpointSite_frame [OF after_destroyBreakpointSite.hyps(2)]
    after_destroyBreakpointSite.IH after_destroyBreakpointSite.prems
  show ?case by auto
next
  case (after_adjustEnterAndLeaveFrameTrapsState s enabled s')
  from adjustEnterAndLeaveFrameTrapsState_frame
    [OF after_adjustEnterAndLeaveFrameTrapsState.hyps(2)]
    after_adjustEnterAndLeaveFrameTrapsState.IH after_adjustEnterAndLeaveFrameTrapsState.prems
  show ?case by auto
qed

lemmas state_defs = exampleNoDebugState_def exampleNoBytecodeState_def exampleBigState_def

subsection \<open>The source map exists only with bytecode\<close>

text \<open>
  C7, as the claim states it, fails. The constructor accepts bytecode for a module whose
  debugging is disabled (its assertion only asks for bytecode when debugging is
  enabled), and \<open>createText\<close> then builds a source map without asking whether debugging
  is enabled.
\<close>

theorem sourceMap_without_debugging_counterexample:
  "newDebugState (\<lambda>off. Nop) (exampleMetadata\<lparr>debugEnabled := False\<rparr>)
       (Some [0, 97, 115, 109]) = Inr exampleNoDebugState \<and>
   createText exampleEnv exampleNoDebugState =
     Inr (Some ''(module)'', exampleNoDebugState\<lparr>maybeSourceMap := Some exampleSourceMap\<rparr>) \<and>
   reachable (exampleNoDebugState\<lparr>maybeSourceMap := Some exampleSourceMap\<rparr>) \<and>
   maybeSourceMap (exampleNoDebugState\<lparr>maybeSourceMap := Some exampleSourceMap\<rparr>) \<noteq> None \<and>
   \<not> debugEnabled (metadata (exampleNoDebugState\<lparr>maybeSourceMap := Some exampleSourceMap\<rparr>))"
proof -
  have a: "newDebugState (\<lambda>off. Nop) (exampleMetadata\<lparr>debugEnabled := False\<rparr>)
       (Some [0, 97, 115, 109]) = Inr exampleNoDebugState"
    by (simp add: newDebugState_def state_defs exampleState_def)
  have b: "createText exampleEnv exampleNoDebugState =
     Inr (Some ''(module)'', exampleNoDebugState\<lparr>maybeSourceMap := Some exampleSourceMap\<rparr>)"
    by (simp add: sourcemap_defs example_defs state_defs)
  have "reachable exampleNoDebugState" using a by (rule reachable.constructed)
  then have "reachable (exampleNoDebugState\<lparr>maybeSourceMap := Some exampleSourceMap\<rparr>)"
    using b by (rule reachable.after_createText)
  then show ?thesis using a b by (simp add: state_defs exampleMetadata_def)
qed

lemma createText_too_big:
  assumes "maybeBytecode s = Some bytes" "length bytes > TooBig" "maybeSourceMap s = None"
  shows "createText env s =
     Inr (if bufferAppendOk env \<and> finishStringOk env then Some tooBigMessage else None, s)"
  using assms by (simp add: createText_def finishString_def)

lemma createText_no_bytecode:
  assumes "maybeBytecode s = None" "maybeSourceMap s = None"
  shows "createText env s =
     Inr (if bufferAppendOk env \<and> finishStringOk env then Some enabledMessage else None, s)"
  using assms by (simp add: createText_def finishString_def)

lemma createText_sets_map:
  assumes "maybeBytecode s = Some bytes" "length bytes \<le> TooBig"
    "createText env s = Inr (Some str, s')"
  shows "maybeSourceMap s' \<noteq> None"
proof -
  obtain ok str0 locs lines where b: "BinaryToText env bytes = (ok, str0, locs, lines)"
    by (cases "BinaryToText env bytes") auto
  show ?thesis
    using assms b by (auto simp: createText_def Let_def split: if_splits)
qed

text \<open>
  C7, amended. In every reachable state a source map exists only if bytecode was
  supplied, of at most \<open>TooBig\<close> bytes; debugging need not be enabled. \<open>ensureSourceMap\<close>
  returns true and leaves the state as it is when a map exists or no bytecode is kept;
  so a second call, after a first that succeeded on bytecode of at most \<open>TooBig\<close> bytes,
  finds the map and neither rebuilds nor replaces it. On bytecode above \<open>TooBig\<close> every
  call leaves the map unset and returns true exactly when the message string could be
  made.
\<close>

theorem sourceMap_only_with_bytecode:
  "(reachable s \<and> maybeSourceMap s \<noteq> None \<longrightarrow>
      (\<exists>bytes. maybeBytecode s = Some bytes \<and> length bytes \<le> TooBig)) \<and>
   (maybeSourceMap s1 \<noteq> None \<or> maybeBytecode s1 = None \<longrightarrow>
      ensureSourceMap env s1 = Inr (True, s1)) \<and>
   (maybeBytecode s2 = Some bytes2 \<and> length bytes2 \<le> TooBig \<and>
      ensureSourceMap env s2 = Inr (True, s3) \<longrightarrow>
      maybeSourceMap s3 \<noteq> None \<and> ensureSourceMap env' s3 = Inr (True, s3)) \<and>
   (reachable s4 \<and> maybeBytecode s4 = Some bytes4 \<and> length bytes4 > TooBig \<longrightarrow>
      maybeSourceMap s4 = None \<and>
      ensureSourceMap env s4 = Inr (bufferAppendOk env \<and> finishStringOk env, s4))"
proof (intro conjI impI)
  assume "reachable s \<and> maybeSourceMap s \<noteq> None"
  then show "\<exists>bytes. maybeBytecode s = Some bytes \<and> length bytes \<le> TooBig"
    using reachable_sourceMap by blast
next
  assume "maybeSourceMap s1 \<noteq> None \<or> maybeBytecode s1 = None"
  then show "ensureSourceMap env s1 = Inr (True, s1)"
    by (simp add: ensureSourceMap_def)
next
  assume h: "maybeBytecode s2 = Some bytes2 \<and> length bytes2 \<le> TooBig \<and>
      ensureSourceMap env s2 = Inr (True, s3)"
  show m: "maybeSourceMap s3 \<noteq> None"
  proof (cases "maybeSourceMap s2 \<noteq> None")
    case True
    then show ?thesis using h by (simp add: ensureSourceMap_def)
  next
    case False
    then obtain str where "createText env s2 = Inr (Some str, s3)"
      using h by (auto simp: ensureSourceMap_def split: sum.splits)
    then show ?thesis using h createText_sets_map by blast
  qed
  then show "ensureSourceMap env' s3 = Inr (True, s3)"
    by (simp add: ensureSourceMap_def)
next
  assume h: "reachable s4 \<and> maybeBytecode s4 = Some bytes4 \<and> length bytes4 > TooBig"
  show m: "maybeSourceMap s4 = None"
  proof (rule ccontr)
    assume "maybeSourceMap s4 \<noteq> None"
    then have "\<exists>bytes. maybeBytecode s4 = Some bytes \<and> length bytes \<le> TooBig"
      using h reachable_sourceMap by blast
    with h show False by auto
  qed
  have "createText env s4 =
     Inr (if bufferAppendOk env \<and> finishStringOk env then Some tooBigMessage else None, s4)"
    using h m createText_too_big by blast
  then show "ensureSourceMap env s4 = Inr (bufferAppendOk env \<and> finishStringOk env, s4)"
    using h m by (simp add: ensureSourceMap_def)
qed

theorem sourceMap_only_with_bytecode_witness:
  "(\<exists>bytes. maybeBytecode exampleMappedState = Some bytes \<and> length bytes \<le> TooBig) \<and>
   ensureSourceMap exampleEnv exampleNoBytecodeState = Inr (True, exampleNoBytecodeState) \<and>
   ensureSourceMap exampleEnv exampleState = Inr (True, exampleMappedState) \<and>
   ensureSourceMap (exampleEnv\<lparr>newSourceMapOk := False\<rparr>) exampleMappedState =
     Inr (True, exampleMappedState) \<and>
   maybeSourceMap exampleBigState = None \<and>
   ensureSourceMap exampleEnv exampleBigState = Inr (True, exampleBigState)"
proof -
  let ?env' = "exampleEnv\<lparr>newSourceMapOk := False\<rparr>"
  note t = sourceMap_only_with_bytecode [of exampleMappedState exampleNoBytecodeState
      exampleEnv exampleState "[0, 97, 115, 109]" exampleMappedState ?env' exampleBigState
      "replicate 1000001 0"]
  have r0: "reachable exampleState"
    by (rule reachable.constructed [of "\<lambda>off. Nop" exampleMetadata "Some [0, 97, 115, 109]"])
      (simp add: newDebugState_def exampleState_def exampleMetadata_def)
  have e: "ensureSourceMap exampleEnv exampleState = Inr (True, exampleMappedState)"
    by (simp add: sourcemap_defs example_defs)
  have r1: "reachable exampleMappedState"
    using r0 e by (rule reachable.after_ensureSourceMap)
  have rb: "reachable exampleBigState"
    by (rule reachable.constructed [of "\<lambda>off. Nop" exampleMetadata
          "Some (replicate 1000001 0)"])
      (simp add: newDebugState_def exampleState_def exampleMetadata_def state_defs)
  have h1: "reachable exampleMappedState \<and> maybeSourceMap exampleMappedState \<noteq> None"
    using r1 by (simp add: exampleMappedState_def)
  have h2: "maybeSourceMap exampleNoBytecodeState \<noteq> None \<or>
      maybeBytecode exampleNoBytecodeState = None"
    by (simp add: state_defs)
  have h3: "maybeBytecode exampleState = Some [0, 97, 115, 109] \<and>
      length [0, 97, 115, 109 :: u8] \<le> TooBig \<and>
      ensureSourceMap exampleEnv exampleState = Inr (True, exampleMappedState)"
    using e by (simp add: exampleState_def TooBig_def)
  have h4: "reachable exampleBigState \<and>
      maybeBytecode exampleBigState = Some (replicate 1000001 0) \<and>
      length (replicate 1000001 (0 :: u8)) > TooBig"
    using rb by (simp add: state_defs TooBig_def)
  have ok: "bufferAppendOk exampleEnv \<and> finishStringOk exampleEnv"
    by (simp add: exampleEnv_def)
  from t h1 have a: "\<exists>bytes. maybeBytecode exampleMappedState = Some bytes \<and>
      length bytes \<le> TooBig"
    by blast
  from t h2 have b: "ensureSourceMap exampleEnv exampleNoBytecodeState =
      Inr (True, exampleNoBytecodeState)"
    by blast
  from t h3 have c: "ensureSourceMap ?env' exampleMappedState = Inr (True, exampleMappedState)"
    by blast
  from t h4 have d: "maybeSourceMap exampleBigState = None \<and>
      ensureSourceMap exampleEnv exampleBigState =
        Inr (bufferAppendOk exampleEnv \<and> finishStringOk exampleEnv, exampleBigState)"
    by blast
  from a b c d e ok show ?thesis by simp
qed

subsection \<open>No bytecode, or too much\<close>

lemma getOffsetLocation_no_map:
  assumes "maybeSourceMap s = None" "ensureSourceMap env s = Inr (ok, s)"
  shows "getOffsetLocation env off s =
     Inr (\<not> debugEnabled (metadata s) \<or> ok, False, None, s)"
  using assms by (simp add: getOffsetLocation_def)

text \<open>
  C6, as the claim states it, fails when the message string cannot be allocated. For the
  debugged module of 1000001 bytes and an environment in which \<open>StringBuffer::append\<close>
  fails, \<open>createText\<close> returns \<open>nullptr\<close> and no message, and \<open>getOffsetLocation\<close>, which
  runs \<open>createText\<close> again through \<open>ensureSourceMap\<close>, returns false: an error. With no
  bytecode \<open>createText\<close> returns \<open>nullptr\<close> in the same way.
\<close>

theorem createText_allocation_counterexample:
  "newDebugState (\<lambda>off. Nop) exampleMetadata (Some (replicate 1000001 0)) =
     Inr exampleBigState \<and>
   createText (exampleEnv\<lparr>bufferAppendOk := False\<rparr>) exampleBigState =
     Inr (None, exampleBigState) \<and>
   getOffsetLocation (exampleEnv\<lparr>bufferAppendOk := False\<rparr>) 20 exampleBigState =
     Inr (False, False, None, exampleBigState) \<and>
   newDebugState (\<lambda>off. Nop) (exampleMetadata\<lparr>debugEnabled := False\<rparr>) None =
     Inr exampleNoBytecodeState \<and>
   createText (exampleEnv\<lparr>bufferAppendOk := False\<rparr>) exampleNoBytecodeState =
     Inr (None, exampleNoBytecodeState)"
  by (simp add: sourcemap_defs example_defs state_defs)

text \<open>
  C6, amended. In a reachable state with no bytecode there is no source map,
  \<open>createText\<close> returns the "developer tools" message unless the string cannot be
  allocated (it then returns \<open>nullptr\<close>), it leaves the state as it is, and
  \<open>getOffsetLocation\<close> returns true with \<open>found = false\<close>. In a reachable state whose
  bytecode is longer than \<open>TooBig\<close> there is no source map either, \<open>createText\<close> returns
  the "too big" message unless the string cannot be allocated, \<open>createText\<close> and
  \<open>ensureSourceMap\<close> leave the map unset, and \<open>getOffsetLocation\<close> reports
  \<open>found = false\<close>; it returns true unless debugging is enabled and the string cannot
  be allocated.
\<close>

theorem createText_without_source_map:
  "(reachable s \<and> maybeBytecode s = None \<longrightarrow>
      maybeSourceMap s = None \<and>
      createText env s =
        Inr (if bufferAppendOk env \<and> finishStringOk env then Some enabledMessage else None, s) \<and>
      ensureSourceMap env s = Inr (True, s) \<and>
      getOffsetLocation env off s = Inr (True, False, None, s)) \<and>
   (reachable t \<and> maybeBytecode t = Some bytes \<and> length bytes > TooBig \<longrightarrow>
      maybeSourceMap t = None \<and>
      createText env t =
        Inr (if bufferAppendOk env \<and> finishStringOk env then Some tooBigMessage else None, t) \<and>
      ensureSourceMap env t = Inr (bufferAppendOk env \<and> finishStringOk env, t) \<and>
      getOffsetLocation env off t =
        Inr (\<not> debugEnabled (metadata t) \<or> (bufferAppendOk env \<and> finishStringOk env),
             False, None, t))"
proof (intro conjI impI)
  assume h: "reachable s \<and> maybeBytecode s = None"
  show m: "maybeSourceMap s = None"
  proof (rule ccontr)
    assume "maybeSourceMap s \<noteq> None"
    then have "\<exists>bytes. maybeBytecode s = Some bytes \<and> length bytes \<le> TooBig"
      using h reachable_sourceMap by blast
    with h show False by simp
  qed
  show "createText env s =
        Inr (if bufferAppendOk env \<and> finishStringOk env then Some enabledMessage else None, s)"
    using h m by (intro createText_no_bytecode) simp_all
  show e: "ensureSourceMap env s = Inr (True, s)"
    using h by (simp add: ensureSourceMap_def)
  show "getOffsetLocation env off s = Inr (True, False, None, s)"
    using getOffsetLocation_no_map [OF m e] by simp
next
  assume h: "reachable t \<and> maybeBytecode t = Some bytes \<and> length bytes > TooBig"
  show m: "maybeSourceMap t = None"
  proof (rule ccontr)
    assume "maybeSourceMap t \<noteq> None"
    then have "\<exists>bytes. maybeBytecode t = Some bytes \<and> length bytes \<le> TooBig"
      using h reachable_sourceMap by blast
    with h show False by auto
  qed
  show c: "createText env t =
        Inr (if bufferAppendOk env \<and> finishStringOk env then Some tooBigMessage else None, t)"
    using h m createText_too_big by blast
  show e: "ensureSourceMap env t = Inr (bufferAppendOk env \<and> finishStringOk env, t)"
    using h m c by (simp add: ensureSourceMap_def)
  show "getOffsetLocation env off t =
        Inr (\<not> debugEnabled (metadata t) \<or> (bufferAppendOk env \<and> finishStringOk env),
             False, None, t)"
    using getOffsetLocation_no_map [OF m e] .
qed

theorem createText_without_source_map_witness:
  "createText exampleEnv exampleNoBytecodeState = Inr (Some enabledMessage, exampleNoBytecodeState) \<and>
   getOffsetLocation exampleEnv 20 exampleNoBytecodeState =
     Inr (True, False, None, exampleNoBytecodeState) \<and>
   createText exampleEnv exampleBigState = Inr (Some tooBigMessage, exampleBigState) \<and>
   ensureSourceMap exampleEnv exampleBigState = Inr (True, exampleBigState) \<and>
   maybeSourceMap exampleBigState = None \<and>
   getOffsetLocation exampleEnv 20 exampleBigState = Inr (True, False, None, exampleBigState)"
proof -
  note t = createText_without_source_map [of exampleNoBytecodeState exampleEnv 20
      exampleBigState "replicate 1000001 0"]
  have rn: "reachable exampleNoBytecodeState"
    by (rule reachable.constructed [of "\<lambda>off. Nop" "exampleMetadata\<lparr>debugEnabled := False\<rparr>"
          None])
      (simp add: newDebugState_def exampleState_def state_defs)
  have rb: "reachable exampleBigState"
    by (rule reachable.constructed [of "\<lambda>off. Nop" exampleMetadata
          "Some (replicate 1000001 0)"])
      (simp add: newDebugState_def exampleState_def exampleMetadata_def state_defs)
  have h1: "reachable exampleNoBytecodeState \<and> maybeBytecode exampleNoBytecodeState = None"
    using rn by (simp add: state_defs)
  have h2: "reachable exampleBigState \<and>
      maybeBytecode exampleBigState = Some (replicate 1000001 0) \<and>
      length (replicate 1000001 (0 :: u8)) > TooBig"
    using rb by (simp add: state_defs TooBig_def)
  have ok: "bufferAppendOk exampleEnv \<and> finishStringOk exampleEnv"
    "debugEnabled (metadata exampleBigState)"
    by (simp_all add: exampleEnv_def state_defs exampleState_def exampleMetadata_def)
  from t h1 have a: "createText exampleEnv exampleNoBytecodeState =
        Inr (if bufferAppendOk exampleEnv \<and> finishStringOk exampleEnv
             then Some enabledMessage else None, exampleNoBytecodeState) \<and>
      getOffsetLocation exampleEnv 20 exampleNoBytecodeState =
        Inr (True, False, None, exampleNoBytecodeState)"
    by blast
  from t h2 have b: "maybeSourceMap exampleBigState = None \<and>
      createText exampleEnv exampleBigState =
        Inr (if bufferAppendOk exampleEnv \<and> finishStringOk exampleEnv
             then Some tooBigMessage else None, exampleBigState) \<and>
      ensureSourceMap exampleEnv exampleBigState =
        Inr (bufferAppendOk exampleEnv \<and> finishStringOk exampleEnv, exampleBigState) \<and>
      getOffsetLocation exampleEnv 20 exampleBigState =
        Inr (\<not> debugEnabled (metadata exampleBigState) \<or>
               (bufferAppendOk exampleEnv \<and> finishStringOk exampleEnv),
             False, None, exampleBigState)"
    by blast
  from a b ok show ?thesis by simp
qed

end
